(* ===== verification/Prelude.thy ===== *)
theory Prelude
  imports Main "HOL-Library.Word"
begin

unbundle bit_operations_syntax

section \<open>Shared vocabulary of the development\<close>

text \<open>
  Types, Go built-ins and generic lemmas that every component theory uses:
  machine integers, Go strings as byte lists (\<open>char\<close> is an 8-bit value), reads of Go
  maps with the zero value of the element type, the functions of package \<open>strings\<close>
  the program calls, decimal printing (the verb \<open>%d\<close>) and folds that run a loop body
  over a slice.
\<close>

type_synonym u64 = "64 word"
type_synonym u8 = "8 word"
type_synonym int32 = "32 word"
type_synonym address = string

named_theorems channel_defs \<open>the operations of channels, for evaluating a concrete run\<close>
named_theorems frame_simps \<open>which fields an operation leaves alone\<close>

subsection \<open>Go maps\<close>

text \<open>
  A Go map is a partial function. Reading an absent key gives the zero value of the
  element type; for \<open>map[string]bool\<close> that is \<open>false\<close>.
\<close>

definition get_bool :: "('k \<rightharpoonup> bool) \<Rightarrow> 'k \<Rightarrow> bool" where
  "get_bool m k = (case m k of None \<Rightarrow> False | Some b \<Rightarrow> b)"

definition get_slice :: "('k \<rightharpoonup> 'v list) \<Rightarrow> 'k \<Rightarrow> 'v list" where
  "get_slice m k = (case m k of None \<Rightarrow> [] | Some xs \<Rightarrow> xs)"

definition get_string :: "('k \<rightharpoonup> string) \<Rightarrow> 'k \<Rightarrow> string" where
  "get_string m k = (case m k of None \<Rightarrow> [] | Some s \<Rightarrow> s)"

abbreviation go_delete :: "('k \<rightharpoonup> 'v) \<Rightarrow> 'k \<Rightarrow> ('k \<rightharpoonup> 'v)" where
  "go_delete m k \<equiv> m(k := None)"

lemma get_bool_simps [simp]:
  "get_bool Map.empty k = False"
  "get_bool (m(j := None)) k = (k \<noteq> j \<and> get_bool m k)"
  "get_bool (m(j \<mapsto> b)) k = (if k = j then b else get_bool m k)"
  by (auto simp: get_bool_def)

lemma get_bool_iff: "get_bool m k \<longleftrightarrow> m k = Some True"
  by (auto simp: get_bool_def split: option.splits)

lemma get_slice_simps [simp]:
  "get_slice Map.empty k = []"
  "get_slice (m(j := None)) k = (if k = j then [] else get_slice m k)"
  "get_slice (m(j \<mapsto> xs)) k = (if k = j then xs else get_slice m k)"
  by (auto simp: get_slice_def)

text \<open>
  Go leaves the iteration order of \<open>range\<close> over a map unspecified. A loop over a map
  takes the order the runtime chose as an argument: some enumeration of the keys
  without repetition.
\<close>

definition range_order :: "'k list \<Rightarrow> ('k \<rightharpoonup> 'v) \<Rightarrow> bool" where
  "range_order ks m \<longleftrightarrow> distinct ks \<and> set ks = dom m"

lemma range_order_exists: "finite (dom m) \<Longrightarrow> \<exists>ks. range_order ks m"
  using finite_distinct_list [of "dom m"] by (auto simp: range_order_def)

lemma range_orderD: "range_order ks m \<Longrightarrow> k \<in> set ks \<longleftrightarrow> m k \<noteq> None"
  by (auto simp: range_order_def)

subsection \<open>Comparing two splits of a list\<close>

lemma append_Cons_eq_cases:
  assumes eq: "us @ p # vs = us' @ q # vs'"
  obtains (same) "us = us'" "p = q" "vs = vs'"
    | (left) w where "us = us' @ q # w" "vs' = w @ p # vs"
    | (right) w where "us' = us @ p # w" "vs = w @ q # vs'"
proof -
  from eq obtain zs where
    "us = us' @ zs \<and> zs @ p # vs = q # vs' \<or> us @ zs = us' \<and> p # vs = zs @ q # vs'"
    by (auto simp: append_eq_append_conv2)
  then show thesis
    using that by (cases zs) auto
qed

subsection \<open>Package strings\<close>

definition HasPrefix :: "string \<Rightarrow> string \<Rightarrow> bool" where
  "HasPrefix s p \<longleftrightarrow> take (length p) s = p"

definition TrimPrefix :: "string \<Rightarrow> string \<Rightarrow> string" where
  "TrimPrefix s p = (if HasPrefix s p then drop (length p) s else s)"

fun Contains :: "string \<Rightarrow> string \<Rightarrow> bool" where
  "Contains [] p = HasPrefix [] p"
| "Contains (c # s) p = (HasPrefix (c # s) p \<or> Contains s p)"

lemma HasPrefix_append [simp]: "HasPrefix (p @ s) p"
  by (simp add: HasPrefix_def)

lemma HasPrefix_iff: "HasPrefix s p \<longleftrightarrow> (\<exists>t. s = p @ t)"
  by (metis HasPrefix_append HasPrefix_def append_take_drop_id)

lemma TrimPrefix_append [simp]: "TrimPrefix (p @ s) p = s"
  by (simp add: TrimPrefix_def)

lemma HasPrefix_Contains: "HasPrefix s p \<Longrightarrow> Contains s p"
  by (cases s) auto

lemma Contains_iff: "Contains s p \<longleftrightarrow> (\<exists>u v. s = u @ p @ v)"
proof (induction s)
  case Nil
  then show ?case by (auto simp: HasPrefix_def)
next
  case (Cons c s)
  show ?case
  proof
    assume "Contains (c # s) p"
    then consider "HasPrefix (c # s) p" | "Contains s p" by auto
    then show "\<exists>u v. c # s = u @ p @ v"
    proof cases
      case 1
      then obtain t where "c # s = [] @ p @ t" by (auto simp: HasPrefix_iff)
      then show ?thesis by blast
    next
      case 2
      then obtain u v where "s = u @ p @ v" using Cons.IH by blast
      then have "c # s = (c # u) @ p @ v" by simp
      then show ?thesis by blast
    qed
  next
    assume "\<exists>u v. c # s = u @ p @ v"
    then obtain u v where uv: "c # s = u @ p @ v" by blast
    show "Contains (c # s) p"
    proof (cases u)
      case Nil
      with uv have "HasPrefix (c # s) p" by (auto simp: HasPrefix_iff)
      then show ?thesis by simp
    next
      case (Cons d u')
      with uv have "s = u' @ p @ v" by simp
      with Cons.IH show ?thesis by auto
    qed
  qed
qed

subsection \<open>Decimal printing\<close>

text \<open>The digits of \<open>%d\<close>, most significant first.\<close>

definition digit_char :: "nat \<Rightarrow> char" where
  "digit_char d = char_of (48 + d)"

fun dec_nat :: "nat \<Rightarrow> string" where
  "dec_nat n = (if n < 10 then [digit_char n] else dec_nat (n div 10) @ [digit_char (n mod 10)])"

declare dec_nat.simps [simp del]

definition itoa :: "int \<Rightarrow> string" where
  "itoa n = (if n < 0 then CHR ''-'' # dec_nat (nat (- n)) else dec_nat (nat n))"

lemma of_char_digit_char: "d < 10 \<Longrightarrow> of_char (digit_char d) = (48 + d :: nat)"
  by (simp add: digit_char_def)

lemma digit_char_inject: "d < 10 \<Longrightarrow> e < 10 \<Longrightarrow> digit_char d = digit_char e \<longleftrightarrow> d = e"
  by (metis add_left_cancel of_char_digit_char)

lemma digit_char_simps [simp]:
  "digit_char 0 = CHR ''0''" "digit_char 1 = CHR ''1''" "digit_char (Suc 0) = CHR ''1''"
  "digit_char 2 = CHR ''2''" "digit_char 3 = CHR ''3''" "digit_char 4 = CHR ''4''"
  "digit_char 5 = CHR ''5''" "digit_char 6 = CHR ''6''" "digit_char 7 = CHR ''7''"
  "digit_char 8 = CHR ''8''" "digit_char 9 = CHR ''9''"
  by code_simp+

text \<open>Evaluation of \<open>itoa\<close> on a numeral.\<close>

lemmas itoa_eval = itoa_def dec_nat.simps

definition is_digit :: "char \<Rightarrow> bool" where
  "is_digit c \<longleftrightarrow> 48 \<le> (of_char c :: nat) \<and> (of_char c :: nat) \<le> 57"

lemma is_digit_digit_char: "d < 10 \<Longrightarrow> is_digit (digit_char d)"
  by (simp add: is_digit_def of_char_digit_char)

lemma dec_nat_nonempty [simp]: "dec_nat n \<noteq> []"
  by (subst dec_nat.simps) simp

lemma dec_nat_digits: "\<forall>c \<in> set (dec_nat n). is_digit c"
proof (induction n rule: dec_nat.induct)
  case (1 n)
  then show ?case
    by (cases "n < 10") (auto simp: dec_nat.simps [of n] is_digit_digit_char)
qed

lemma dec_nat_inject: "dec_nat m = dec_nat n \<longleftrightarrow> m = n"
proof
  assume "dec_nat m = dec_nat n"
  then show "m = n"
  proof (induction m arbitrary: n rule: dec_nat.induct)
    case (1 m)
    have len: "length (dec_nat k) = 1 \<longleftrightarrow> k < 10" for k
      by (subst dec_nat.simps) simp
    show ?case
    proof (cases "m < 10")
      case True
      with "1.prems" len have "n < 10" by metis
      with True "1.prems" show ?thesis
        by (simp add: dec_nat.simps [of m] dec_nat.simps [of n] digit_char_inject)
    next
      case False
      with "1.prems" len have n: "\<not> n < 10" by metis
      from False n "1.prems" have
        "dec_nat (m div 10) = dec_nat (n div 10)" and "m mod 10 = n mod 10"
        by (simp_all add: dec_nat.simps [of m] dec_nat.simps [of n] digit_char_inject)
      with "1.IH" [OF False] have "m div 10 = n div 10" by blast
      with \<open>m mod 10 = n mod 10\<close> show ?thesis by (metis div_mult_mod_eq)
    qed
  qed
qed simp

lemma itoa_inject: "itoa m = itoa n \<longleftrightarrow> m = n"
proof -
  have minus: "\<not> is_digit CHR ''-''" by (simp add: is_digit_def)
  then have "CHR ''-'' # xs \<noteq> dec_nat k" for xs k
    using dec_nat_digits [of k] by (metis list.set_intros(1))
  then show ?thesis
    by (auto simp: itoa_def dec_nat_inject dest: sym)
qed

subsection \<open>Loops over slices\<close>

text \<open>
  A loop body over the elements of a slice is a state transformer; \<open>fold\<close> runs it. The
  rule below is the loop-invariant rule used for every such loop.
\<close>

lemma fold_loop_invariant:
  assumes "P s" and "\<And>x s. x \<in> set xs \<Longrightarrow> P s \<Longrightarrow> P (f x s)"
  shows "P (fold f xs s)"
  using assms by (induction xs arbitrary: s) auto

text \<open>Running a list of operations from a state, collecting what each one emits.\<close>

fun run_ops :: "('s \<Rightarrow> 'op \<Rightarrow> 's \<times> 'e list) \<Rightarrow> 's \<Rightarrow> 'op list \<Rightarrow> 's \<times> 'e list" where
  "run_ops step s [] = (s, [])"
| "run_ops step s (x # xs) =
     (let (s1, es1) = step s x; (s2, es2) = run_ops step s1 xs in (s2, es1 @ es2))"

fun valid_ops :: "('s \<Rightarrow> 'op \<Rightarrow> 's \<times> 'e list) \<Rightarrow> ('s \<Rightarrow> 'op \<Rightarrow> bool) \<Rightarrow> 's \<Rightarrow> 'op list \<Rightarrow> bool" where
  "valid_ops step valid s [] = True"
| "valid_ops step valid s (x # xs) =
     (valid s x \<and> valid_ops step valid (fst (step s x)) xs)"

end
