(* ===== verification/Types.thy ===== *)
theory Types
  imports Prelude
begin

section \<open>Targets, events and jobs (pkg/prober/types.go, worker.go)\<close>

text \<open>
  The data that travels between the components: a probe target, the event by which the
  registry tells the scheduler loop that a target starts or stops, and the job a
  scheduler puts into the work queue. \<open>replay\<close> is the meaning of an event sequence: the
  set of addresses that are being probed once the events have been handled in order.
\<close>

record Target =
  Name :: string
  Address :: address
  Scheme :: string
  Static :: bool
  InsecureSkipVerify :: bool

record TargetEvent =
  evt_target :: Target
  IsAdded :: bool

record Job =
  job_target :: Target

text \<open>The Go zero value \<open>Target{}\<close>, from which composite literals start.\<close>

definition zero_Target :: Target where
  "zero_Target = \<lparr>Name = [], Address = [], Scheme = [], Static = False,
                   InsecureSkipVerify = False\<rparr>"

abbreviation evt_address :: "TargetEvent \<Rightarrow> address" where
  "evt_address e \<equiv> Address (evt_target e)"

definition added :: "Target \<Rightarrow> TargetEvent" where
  "added t = \<lparr>evt_target = t, IsAdded = True\<rparr>"

definition removed :: "Target \<Rightarrow> TargetEvent" where
  "removed t = \<lparr>evt_target = t, IsAdded = False\<rparr>"

lemma event_simps [simp]:
  "evt_target (added t) = t" "IsAdded (added t)"
  "evt_target (removed t) = t" "\<not> IsAdded (removed t)"
  "added t \<noteq> removed u" "removed t \<noteq> added u"
  "added t = added u \<longleftrightarrow> t = u" "removed t = removed u \<longleftrightarrow> t = u"
  by (auto simp: added_def removed_def)

lemma zero_Target_simps [simp]:
  "Address (zero_Target\<lparr>Address := a\<rparr>) = a"
  "Static zero_Target = False"
  by (auto simp: zero_Target_def)

subsection \<open>The meaning of an event sequence\<close>

fun replay :: "address set \<Rightarrow> TargetEvent list \<Rightarrow> address set" where
  "replay A [] = A"
| "replay A (e # es) =
     replay (if IsAdded e then insert (evt_address e) A else A - {evt_address e}) es"

lemma replay_append [simp]: "replay A (xs @ ys) = replay (replay A xs) ys"
  by (induction xs arbitrary: A) auto

text \<open>
  An event sequence is effective when no event repeats what is already the case: an
  addition is of an address that is not running, a removal of one that is.
\<close>

fun effective :: "address set \<Rightarrow> TargetEvent list \<Rightarrow> bool" where
  "effective A [] = True"
| "effective A (e # es) =
     ((IsAdded e \<longleftrightarrow> evt_address e \<notin> A) \<and> effective (replay A [e]) es)"

lemma effective_append [simp]:
  "effective A (xs @ ys) \<longleftrightarrow> effective A xs \<and> effective (replay A xs) ys"
  by (induction xs arbitrary: A) auto

text \<open>
  The contract between a producer of events and their consumer: after every operation,
  replaying the emitted events over the addresses that were running gives the addresses
  that are running now. The consumer's lemma is about whole histories.
\<close>

locale event_source =
  fixes step :: "'s \<Rightarrow> 'op \<Rightarrow> 's \<times> TargetEvent list"
    and valid :: "'s \<Rightarrow> 'op \<Rightarrow> bool"
    and inv :: "'s \<Rightarrow> bool"
    and running :: "'s \<Rightarrow> address set"
  assumes inv_step: "inv s \<Longrightarrow> valid s x \<Longrightarrow> inv (fst (step s x))"
    and replay_step: "inv s \<Longrightarrow> valid s x \<Longrightarrow>
      replay (running s) (snd (step s x)) = running (fst (step s x))"
begin

lemma run_inv: "inv s \<Longrightarrow> valid_ops step valid s xs \<Longrightarrow> inv (fst (run_ops step s xs))"
proof (induction xs arbitrary: s)
  case Nil
  then show ?case by simp
next
  case (Cons x xs)
  then have "inv (fst (run_ops step (fst (step s x)) xs))"
    by (auto intro: inv_step)
  then show ?case by (simp add: case_prod_beta Let_def)
qed

lemma run_replay:
  "inv s \<Longrightarrow> valid_ops step valid s xs \<Longrightarrow>
    replay (running s) (snd (run_ops step s xs)) = running (fst (run_ops step s xs))"
proof (induction xs arbitrary: s)
  case Nil
  then show ?case by simp
next
  case (Cons x xs)
  then have "replay (running (fst (step s x))) (snd (run_ops step (fst (step s x)) xs))
      = running (fst (run_ops step (fst (step s x)) xs))"
    by (auto intro: inv_step)
  with Cons.prems show ?case
    by (simp add: case_prod_beta Let_def replay_step)
qed

end

end
