(* ===== verification/Sharding.thy ===== *)
theory Sharding
  imports Types
begin

section \<open>Rendezvous hashing (pkg/prober/sharding.go)\<close>

text \<open>
  Which replica owns a target: every (target, peer, virtual node) triple is hashed with
  64-bit FNV-1a and the peer with the highest hash wins, the first one met in case of a
  tie. Hashes are \<open>64 word\<close> values, so multiplication wraps as \<open>uint64\<close> does. A Go
  panic (a write below index 0 of the digit buffer) is the result \<open>None\<close>.
\<close>

subsection \<open>The code\<close>

definition fnvOffset64 :: u64 where
  "fnvOffset64 = 14695981039346656037"

definition fnvPrime64 :: u64 where
  "fnvPrime64 = 1099511628211"

definition vnodesPerPeer :: int where
  "vnodesPerPeer = 100"

text \<open>One round of the hash: \<open>h ^= b; h *= fnvPrime64\<close>.\<close>

definition hash_byte :: "u64 \<Rightarrow> u64 \<Rightarrow> u64" where
  "hash_byte h b = (h XOR b) * fnvPrime64"

fun hash_string :: "u64 \<Rightarrow> string \<Rightarrow> u64" where
  "hash_string h [] = h"
| "hash_string h (c # s) = hash_string (hash_byte h (of_char c)) s"

text \<open>
  The digit loop writes the decimal digits of the virtual node index into a 10-byte
  buffer from its end; \<open>idx\<close> is the position of the last write. The byte written is
  \<open>byte('0' + (vnode % 10))\<close>.
\<close>

function digit_loop :: "int \<Rightarrow> nat \<Rightarrow> u8 list \<Rightarrow> (nat \<times> u8 list) option" where
  "digit_loop vnode idx digits =
     (if vnode > 0
      then (if idx = 0 then None
            else digit_loop (vnode div 10) (idx - 1)
                   (digits[idx - 1 := of_int (48 + vnode mod 10)]))
      else Some (idx, digits))"
  by pat_completeness auto
termination
  by (relation "measure (\<lambda>(v, idx, ds). nat v)") auto

declare digit_loop.simps [simp del]

definition hashTargetPodAndVNode :: "address \<Rightarrow> string \<Rightarrow> int \<Rightarrow> u64 option" where
  "hashTargetPodAndVNode target podIP vnode =
     (let h = hash_string fnvOffset64 target;
          h = hash_byte h 0;
          h = hash_string h podIP;
          h = hash_byte h (of_char CHR ''#'')
      in if vnode = 0 then Some (hash_byte h (of_char CHR ''0''))
         else (case digit_loop vnode 10 (replicate 10 0) of
                 None \<Rightarrow> None
               | Some (idx, digits) \<Rightarrow>
                   Some (foldl (\<lambda>h d. hash_byte h (ucast d)) h (drop idx digits))))"

text \<open>
  The two loops of \<open>evalShardingOwner\<close>: the state is \<open>(highestHash, selectedPod)\<close>,
  starting at the zero values of both variables.
\<close>

definition vnode_step ::
  "address \<Rightarrow> nat \<Rightarrow> string \<Rightarrow> int \<Rightarrow> u64 \<times> string \<Rightarrow> (u64 \<times> string) option" where
  "vnode_step target i podIP v st =
     (case hashTargetPodAndVNode target podIP v of
        None \<Rightarrow> None
      | Some h \<Rightarrow>
          Some (if (i = 0 \<and> v = 0) \<or> h > fst st then (h, podIP) else st))"

function vnode_loop ::
  "address \<Rightarrow> nat \<Rightarrow> string \<Rightarrow> int \<Rightarrow> u64 \<times> string \<Rightarrow> (u64 \<times> string) option" where
  "vnode_loop target i podIP v st =
     (if v < vnodesPerPeer
      then (case vnode_step target i podIP v st of
              None \<Rightarrow> None
            | Some st' \<Rightarrow> vnode_loop target i podIP (v + 1) st')
      else Some st)"
  by pat_completeness auto
termination
  by (relation "measure (\<lambda>(t, i, p, v, st). nat (vnodesPerPeer - v))") auto

declare vnode_loop.simps [simp del]

fun peer_loop ::
  "address \<Rightarrow> nat \<Rightarrow> string list \<Rightarrow> u64 \<times> string \<Rightarrow> (u64 \<times> string) option" where
  "peer_loop target i [] st = Some st"
| "peer_loop target i (podIP # peers) st =
     (case vnode_loop target i podIP 0 st of
        None \<Rightarrow> None
      | Some st' \<Rightarrow> peer_loop target (Suc i) peers st')"

definition evalShardingOwner :: "address \<Rightarrow> string \<Rightarrow> string list \<Rightarrow> bool option" where
  "evalShardingOwner target selfPodIP peers =
     (if selfPodIP = [] \<or> length peers = 0 then Some True
      else (case peer_loop target 0 peers (0, []) of
              None \<Rightarrow> None
            | Some (highestHash, selectedPod) \<Rightarrow> Some (selectedPod = selfPodIP)))"

subsection \<open>Reference: FNV-1a over the concatenated bytes\<close>

definition fnv1a :: "u8 list \<Rightarrow> u64" where
  "fnv1a bs = foldl (\<lambda>h b. (h XOR ucast b) * fnvPrime64) fnvOffset64 bs"

definition string_bytes :: "string \<Rightarrow> u8 list" where
  "string_bytes s = map of_char s"

definition hash_input :: "address \<Rightarrow> string \<Rightarrow> int \<Rightarrow> string" where
  "hash_input target podIP v = target @ CHR 0x00 # podIP @ ''#'' @ itoa v"

text \<open>
  The weight of a peer for a target is the highest hash of its virtual nodes; the owner
  is the first peer of maximal weight. This is Highest Random Weight hashing as
  docs/adr/0008 and docs/adr/0024 describe it, without the loops.
\<close>

definition vnode_hash :: "address \<Rightarrow> string \<Rightarrow> int \<Rightarrow> u64" where
  "vnode_hash target podIP v = fnv1a (string_bytes (hash_input target podIP v))"

definition weight :: "address \<Rightarrow> string \<Rightarrow> u64" where
  "weight target podIP = Max (vnode_hash target podIP ` {0..<vnodesPerPeer})"

fun first_max :: "('a \<Rightarrow> 'w::linorder) \<Rightarrow> 'a \<Rightarrow> 'a list \<Rightarrow> 'a" where
  "first_max w p [] = p"
| "first_max w p (q # qs) = first_max w (if w q > w p then q else p) qs"

definition owner_of :: "address \<Rightarrow> string list \<Rightarrow> string" where
  "owner_of target peers =
     (case peers of [] \<Rightarrow> [] | p # ps \<Rightarrow> first_max (weight target) p ps)"

subsection \<open>The digit loop prints the decimal digits\<close>

lemma of_char_word: "(of_char c :: 'a::len word) = of_nat (of_char c)"
  by (rule of_nat_of_char [symmetric])

lemma ucast_of_char: "(ucast (of_char c :: u8) :: u64) = of_char c"
proof -
  have "take_bit 8 (of_char c :: nat) = of_char c"
    using nat_of_char_less_256 [of c] by (intro take_bit_nat_eq_self) simp
  then show ?thesis
    unfolding of_char_word [of c] by (simp add: unsigned_of_nat)
qed

lemma digit_byte: "d < 10 \<Longrightarrow> (of_int (48 + int d) :: u8) = of_char (digit_char d)"
  unfolding of_char_word by (simp add: of_char_digit_char)

lemma digit_loop_zero [simp]: "digit_loop 0 idx ds = Some (idx, ds)"
  by (simp add: digit_loop.simps)

lemma list_update_block:
  assumes "k < length ds"
  shows "ds[k := x] = take k ds @ x # drop (Suc k) ds"
  using assms by (simp add: upd_conv_take_nth_drop)

lemma digit_loop_dec_nat:
  assumes "0 < n" "length (dec_nat n) \<le> idx" "idx \<le> length ds"
  shows "digit_loop (int n) idx ds =
    Some (idx - length (dec_nat n),
          take (idx - length (dec_nat n)) ds @ string_bytes (dec_nat n) @ drop idx ds)"
  using assms
proof (induction n arbitrary: idx ds rule: dec_nat.induct)
  case (1 n)
  have idx: "idx \<noteq> 0" using "1.prems"(2) by (cases idx) auto
  have byte: "(of_int (48 + int n mod 10) :: u8) = of_char (digit_char (n mod 10))"
    using digit_byte [of "n mod 10"] by (simp add: zmod_int)
  show ?case
  proof (cases "n < 10")
    case True
    then have "int n div 10 = 0" by simp
    with True idx byte "1.prems" show ?thesis
      by (simp add: digit_loop.simps [of "int n"] dec_nat.simps [of n] string_bytes_def
          list_update_block)
  next
    case False
    define ds' where "ds' = ds[idx - 1 := of_int (48 + int n mod 10)]"
    let ?m = "n div 10"
    have dec: "dec_nat n = dec_nat ?m @ [digit_char (n mod 10)]"
      using False by (simp add: dec_nat.simps [of n])
    have "digit_loop (int ?m) (idx - 1) ds' =
      Some (idx - 1 - length (dec_nat ?m),
            take (idx - 1 - length (dec_nat ?m)) ds' @ string_bytes (dec_nat ?m) @ drop (idx - 1) ds')"
      using "1.IH" [OF False, of "idx - 1" ds'] False "1.prems" dec by (simp add: ds'_def)
    moreover have "digit_loop (int n) idx ds = digit_loop (int ?m) (idx - 1) ds'"
      using idx "1.prems" by (simp add: digit_loop.simps [of "int n"] ds'_def zdiv_int)
    moreover have "drop (idx - 1) ds' = of_char (digit_char (n mod 10)) # drop idx ds"
      using idx "1.prems" byte by (simp add: ds'_def list_update_block)
    moreover have "take (idx - 1 - length (dec_nat ?m)) ds' = take (idx - length (dec_nat n)) ds"
      using idx "1.prems" dec by (simp add: ds'_def list_update_block min_def)
    ultimately show ?thesis using dec by (simp add: string_bytes_def)
  qed
qed

lemma digit_loop_overrun:
  assumes "idx < length (dec_nat n)" "0 < n"
  shows "digit_loop (int n) idx ds = None"
  using assms
proof (induction n arbitrary: idx ds rule: dec_nat.induct)
  case (1 n)
  show ?case
  proof (cases "idx = 0")
    case True
    with "1.prems" show ?thesis by (simp add: digit_loop.simps [of "int n"])
  next
    case False
    then have n: "\<not> n < 10"
      using "1.prems"(1) by (cases "n < 10") (auto simp: dec_nat.simps [of n])
    then have "idx - 1 < length (dec_nat (n div 10))"
      using "1.prems"(1) False by (simp add: dec_nat.simps [of n])
    with "1.IH" [OF n] n have "digit_loop (int (n div 10)) (idx - 1) ds' = None" for ds'
      by simp
    with False "1.prems" show ?thesis
      by (simp add: digit_loop.simps [of "int n"] zdiv_int)
  qed
qed

lemma length_dec_nat: "length (dec_nat n) \<le> Suc k \<longleftrightarrow> n < 10 ^ Suc k"
proof (induction k arbitrary: n)
  case 0
  show ?case using length_greater_0_conv [of "dec_nat (n div 10)"]
    by (subst dec_nat.simps) (auto simp del: length_greater_0_conv)
next
  case (Suc k)
  show ?case
  proof (cases "n < 10")
    case True
    then have "n < 10 ^ Suc (Suc k)"
      by (rule less_le_trans) simp
    with True show ?thesis by (simp add: dec_nat.simps [of n])
  next
    case False
    have "n div 10 < 10 ^ Suc k \<longleftrightarrow> n < 10 ^ Suc (Suc k)"
      by (simp add: less_mult_imp_div_less div_less_iff_less_mult mult.commute)
    with False Suc.IH [of "n div 10"] show ?thesis by (simp add: dec_nat.simps [of n])
  qed
qed

subsection \<open>The hash is FNV-1a of the joined bytes\<close>

lemma hash_byte_fold:
  "foldl (\<lambda>h d. hash_byte h (ucast d)) h (string_bytes s) = hash_string h s"
  by (induction s arbitrary: h) (simp_all add: string_bytes_def ucast_of_char)

lemma fnv1a_hash_string: "fnv1a (string_bytes s) = hash_string fnvOffset64 s"
  using hash_byte_fold [of fnvOffset64 s] by (simp add: fnv1a_def hash_byte_def)

lemma hash_string_append [simp]:
  "hash_string h (s @ t) = hash_string (hash_string h s) t"
  by (induction s arbitrary: h) auto

lemma hashTarget_eq_fnv1a:
  assumes "0 \<le> v" "v < 10 ^ 10"
  shows "hashTargetPodAndVNode target podIP v = Some (vnode_hash target podIP v)"
proof (cases "v = 0")
  case True
  have "itoa 0 = ''0''"
    by (simp add: itoa_def dec_nat.simps digit_char_def char_of_def bit_0)
  with True show ?thesis
    by (simp add: hashTargetPodAndVNode_def vnode_hash_def fnv1a_hash_string hash_input_def)
next
  case False
  define n where "n = nat v"
  have v: "v = int n" "0 < n" "n < 10 ^ 10"
    using False assms by (auto simp: n_def)
  have len: "length (dec_nat n) \<le> 10"
    using length_dec_nat [of n 9] v(3) by simp
  have "digit_loop v 10 (replicate 10 0) = Some (10 - length (dec_nat n),
      replicate (10 - length (dec_nat n)) 0 @ string_bytes (dec_nat n))"
    using digit_loop_dec_nat [of n 10 "replicate 10 0"] v len by simp
  moreover have "itoa v = dec_nat n"
    using v by (simp add: itoa_def)
  ultimately show ?thesis
    using False by (simp add: hashTargetPodAndVNode_def vnode_hash_def fnv1a_hash_string
        hash_input_def hash_byte_fold Let_def)
qed

lemma hashTarget_overrun:
  assumes "10 ^ 10 \<le> v"
  shows "hashTargetPodAndVNode target podIP v = None"
proof -
  define n where "n = nat v"
  have v: "v = int n" "0 < n" "10 ^ 10 \<le> n"
    using assms by (auto simp: n_def nat_le_iff le_nat_iff)
  then have "digit_loop v 10 (replicate 10 0) = None"
    using length_dec_nat [of n 9] digit_loop_overrun [of 10 n] by simp
  with v show ?thesis by (simp add: hashTargetPodAndVNode_def Let_def)
qed

subsection \<open>The loops select the first peer of highest weight\<close>

lemma vnode_step_eq:
  assumes "0 \<le> v" "v < vnodesPerPeer"
  shows "vnode_step target i podIP v st =
    Some (if (i = 0 \<and> v = 0) \<or> vnode_hash target podIP v > fst st
          then (vnode_hash target podIP v, podIP) else st)"
  using assms by (simp add: vnode_step_def hashTarget_eq_fnv1a vnodesPerPeer_def)

lemma atLeastLessThan_int_Suc: "(v::int) < n \<Longrightarrow> {v..<n} = insert v {v + 1..<n}"
  by auto

text \<open>From any virtual node on, the loop leaves the larger of its start and the rest.\<close>

lemma vnode_loop_rest:
  assumes "0 \<le> v" "v \<le> vnodesPerPeer" "i \<noteq> 0 \<or> v \<noteq> 0"
  shows "vnode_loop target i podIP v st =
    Some (if v < vnodesPerPeer \<and> Max (vnode_hash target podIP ` {v..<vnodesPerPeer}) > fst st
          then (Max (vnode_hash target podIP ` {v..<vnodesPerPeer}), podIP) else st)"
  using assms
proof (induction target i podIP v st rule: vnode_loop.induct)
  case (1 target i podIP v st)
  let ?h = "vnode_hash target podIP"
  let ?H = "\<lambda>v. ?h ` {v..<vnodesPerPeer}"
  show ?case
  proof (cases "v < vnodesPerPeer")
    case False
    then show ?thesis by (simp add: vnode_loop.simps [of _ _ _ v])
  next
    case True
    define st' where "st' = (if ?h v > fst st then (?h v, podIP) else st)"
    have step: "vnode_step target i podIP v st = Some st'"
      using True "1.prems" by (auto simp: vnode_step_eq st'_def)
    have IH: "vnode_loop target i podIP (v + 1) st' =
      Some (if v + 1 < vnodesPerPeer \<and> Max (?H (v + 1)) > fst st'
            then (Max (?H (v + 1)), podIP) else st')"
      using "1.IH" [OF True step] True "1.prems" by simp
    have unfold: "vnode_loop target i podIP v st = vnode_loop target i podIP (v + 1) st'"
      using True step by (simp add: vnode_loop.simps [of _ _ _ v])
    have split: "?H v = insert (?h v) (?H (v + 1))"
      using True by (simp add: atLeastLessThan_int_Suc)
    show ?thesis
    proof (cases "v + 1 < vnodesPerPeer")
      case False
      with True have "?H (v + 1) = {}" by simp
      with split have "Max (?H v) = ?h v" by simp
      with True False unfold IH show ?thesis by (simp add: st'_def)
    next
      case True
      then have "Max (?H v) = max (?h v) (Max (?H (v + 1)))"
        using split by (simp add: Max_insert)
      with True \<open>v < vnodesPerPeer\<close> unfold IH show ?thesis
        by (auto simp: st'_def max_def)
    qed
  qed
qed

lemma vnode_loop_later:
  "i \<noteq> 0 \<Longrightarrow> vnode_loop target i podIP 0 st =
    Some (if weight target podIP > fst st then (weight target podIP, podIP) else st)"
  by (simp add: vnode_loop_rest weight_def vnodesPerPeer_def)

lemma vnode_loop_first:
  "vnode_loop target 0 podIP 0 st = Some (weight target podIP, podIP)"
proof -
  let ?h = "vnode_hash target podIP"
  let ?R = "?h ` {1..<vnodesPerPeer}"
  have pos: "0 < vnodesPerPeer" "1 < vnodesPerPeer" by (simp_all add: vnodesPerPeer_def)
  have "vnode_loop target 0 podIP 0 st = vnode_loop target 0 podIP 1 (?h 0, podIP)"
    using pos by (simp add: vnode_loop.simps [of _ _ _ 0] vnode_step_eq)
  also have "\<dots> = Some (if Max ?R > ?h 0 then (Max ?R, podIP) else (?h 0, podIP))"
    using pos by (simp add: vnode_loop_rest)
  also have "\<dots> = Some (weight target podIP, podIP)"
  proof -
    have "{0..<vnodesPerPeer} = insert 0 {1..<vnodesPerPeer}"
      using atLeastLessThan_int_Suc [OF pos(1)] by simp
    then have "weight target podIP = Max (insert (?h 0) ?R)"
      by (simp add: weight_def)
    also have "\<dots> = max (?h 0) (Max ?R)"
      using pos by (intro Max_insert) auto
    finally show ?thesis using pos by (auto simp: max_def)
  qed
  finally show ?thesis .
qed

lemma peer_loop_later:
  "i \<noteq> 0 \<Longrightarrow> peer_loop target i peers (weight target p, p) =
    Some (weight target (first_max (weight target) p peers), first_max (weight target) p peers)"
  by (induction peers arbitrary: i p) (auto simp: vnode_loop_later)

lemma peer_loop_owner:
  "peers \<noteq> [] \<Longrightarrow>
    peer_loop target 0 peers st = Some (weight target (owner_of target peers), owner_of target peers)"
  by (cases peers) (simp_all add: vnode_loop_first peer_loop_later owner_of_def)

lemma evalShardingOwner_eq:
  "evalShardingOwner target self peers =
    Some (self = [] \<or> peers = [] \<or> owner_of target peers = self)"
  by (simp add: evalShardingOwner_def peer_loop_owner)

subsection \<open>Facts about the owner\<close>

lemma first_max_in: "first_max w p ps \<in> insert p (set ps)"
  by (induction ps arbitrary: p) (auto split: if_splits)

lemma first_max_ge: "q \<in> insert p (set ps) \<Longrightarrow> w q \<le> w (first_max w p ps)"
proof (induction ps arbitrary: p q)
  case Nil
  then show ?case by simp
next
  case (Cons r ps)
  let ?p = "if w r > w p then r else p"
  have "w ?p \<le> w (first_max w ?p ps)" by (rule Cons.IH) simp
  moreover have "w p \<le> w ?p" "w r \<le> w ?p" by auto
  ultimately show ?case
    using Cons.prems Cons.IH [of q ?p] by auto
qed

lemma first_max_append: "first_max w p (xs @ ys) = first_max w (first_max w p xs) ys"
  by (induction xs arbitrary: p) auto

text \<open>Dropping peers that did not win leaves the winner: the core of minimal churn.\<close>

lemma first_max_start:
  "w p \<le> w p' \<Longrightarrow> first_max w p' ps = p' \<or> first_max w p ps = first_max w p' ps"
proof (induction ps arbitrary: p p')
  case Nil
  then show ?case by simp
next
  case (Cons q ps)
  then show ?case
    by (cases "w q > w p"; cases "w q > w p'") (auto simp: not_less intro: Cons.IH)
qed

lemma owner_of_in: "peers \<noteq> [] \<Longrightarrow> owner_of target peers \<in> set peers"
  using first_max_in [of "weight target" "hd peers" "tl peers"]
  by (cases peers) (simp_all add: owner_of_def)

lemma owner_of_max: "q \<in> set peers \<Longrightarrow> weight target q \<le> weight target (owner_of target peers)"
  by (cases peers) (simp_all add: owner_of_def first_max_ge)

text \<open>The owner as a split of the peer list: strictly heavier than all before it.\<close>

lemma first_max_split:
  "\<exists>us vs. p # ps = us @ first_max w p ps # vs \<and>
     (\<forall>u \<in> set us. w u < w (first_max w p ps)) \<and> (\<forall>v \<in> set vs. w v \<le> w (first_max w p ps))"
proof (induction ps arbitrary: p)
  case Nil
  show ?case by (intro exI [of _ "[]"]) simp
next
  case (Cons q ps)
  show ?case
  proof (cases "w q > w p")
    case True
    let ?m = "first_max w q ps"
    obtain us vs where "q # ps = us @ ?m # vs" "\<forall>u \<in> set us. w u < w ?m" "\<forall>v \<in> set vs. w v \<le> w ?m"
      using Cons.IH by blast
    moreover have "w p < w ?m" using True first_max_ge [of q q ps w] by simp
    moreover have m: "first_max w p (q # ps) = ?m" using True by simp
    ultimately show ?thesis
      unfolding m by - (rule exI [of _ "p # us"], rule exI [of _ vs], simp)
  next
    case False
    let ?m = "first_max w p ps"
    obtain us vs where split: "p # ps = us @ ?m # vs" "\<forall>u \<in> set us. w u < w ?m"
        "\<forall>v \<in> set vs. w v \<le> w ?m"
      using Cons.IH by blast
    have q: "w q \<le> w ?m" using False first_max_ge [of p p ps w] by simp
    show ?thesis
    proof (cases us)
      case Nil
      with split q False show ?thesis by - (rule exI [of _ "[]"], rule exI [of _ "q # ps"], auto)
    next
      case (Cons u us')
      with split have "w p < w ?m" by auto
      with Cons split False show ?thesis
        by - (rule exI [of _ "p # q # us'"], rule exI [of _ vs], auto)
    qed
  qed
qed

lemma owner_of_split:
  assumes "peers \<noteq> []"
  shows "\<exists>us vs. peers = us @ owner_of target peers # vs \<and>
    (\<forall>u \<in> set us. weight target u < weight target (owner_of target peers)) \<and>
    (\<forall>v \<in> set vs. weight target v \<le> weight target (owner_of target peers))"
  using assms first_max_split [of "hd peers" "tl peers" "weight target"]
  by (cases peers) (simp_all add: owner_of_def)

lemma owner_of_eqI:
  assumes "\<forall>u \<in> set us. weight target u < weight target p"
    and "\<forall>v \<in> set vs. weight target v \<le> weight target p"
  shows "owner_of target (us @ p # vs) = p"
proof -
  let ?peers = "us @ p # vs"
  obtain us' vs' where s: "?peers = us' @ owner_of target ?peers # vs'"
      "\<forall>u \<in> set us'. weight target u < weight target (owner_of target ?peers)"
      "\<forall>v \<in> set vs'. weight target v \<le> weight target (owner_of target ?peers)"
    using owner_of_split [of ?peers] by blast
  define o' where "o' = owner_of target ?peers"
  have eq: "us @ p # vs = us' @ o' # vs'" using s(1) by (simp add: o'_def)
  then have "o' = p"
  proof (cases rule: append_Cons_eq_cases)
    case same
    then show ?thesis by simp
  next
    case (left w)
    then have "o' \<in> set us" by simp
    with assms(1) have "weight target o' < weight target p" by blast
    moreover have "weight target p \<le> weight target o'"
      unfolding o'_def by (rule owner_of_max) simp
    ultimately show ?thesis by simp
  next
    case (right w)
    then have "weight target p < weight target o'" using s(2) by (simp add: o'_def)
    moreover have "weight target o' \<le> weight target p"
      using assms(2) right by simp
    ultimately show ?thesis by simp
  qed
  then show ?thesis by (simp add: o'_def)
qed

lemma owner_of_remove:
  assumes own: "owner_of target (xs @ q # ys) = p" and "p \<noteq> q"
  shows "owner_of target (xs @ ys) = p"
proof -
  obtain us vs where s: "xs @ q # ys = us @ p # vs"
      "\<forall>u \<in> set us. weight target u < weight target p"
      "\<forall>v \<in> set vs. weight target v \<le> weight target p"
    using owner_of_split [of "xs @ q # ys" target] own by auto
  from s(1) show ?thesis
  proof (cases rule: append_Cons_eq_cases)
    case same
    with \<open>p \<noteq> q\<close> show ?thesis by simp
  next
    case (left w)
    with s(2,3) owner_of_eqI [of us target p "w @ ys"] show ?thesis by auto
  next
    case (right w)
    with s(2,3) owner_of_eqI [of "xs @ w" target p vs] show ?thesis by auto
  qed
qed

text \<open>Two orders of the same peers: the same owner, or a tie between two peers.\<close>

lemma owner_of_same_set:
  assumes "set ps = set qs" "ps \<noteq> []"
  shows "weight target (owner_of target ps) = weight target (owner_of target qs)"
proof -
  have "qs \<noteq> []" using assms by auto
  with assms have "owner_of target ps \<in> set qs" "owner_of target qs \<in> set ps"
    using owner_of_in by blast+
  then show ?thesis by (metis owner_of_max order_antisym)
qed

subsection \<open>Ownership as an interface\<close>

text \<open>
  What the registry relies on: a replica without an address of its own, or one that
  knows no peers, owns everything; otherwise one of the peers, and only it, owns the
  target.
\<close>

definition owns :: "address \<Rightarrow> string \<Rightarrow> string list \<Rightarrow> bool" where
  "owns target self peers \<longleftrightarrow> evalShardingOwner target self peers = Some True"

locale ownership =
  fixes own :: "address \<Rightarrow> string \<Rightarrow> string list \<Rightarrow> bool"
  assumes own_no_self: "own a [] ps"
    and own_no_peers: "own a s []"
    and own_winner: "ps \<noteq> [] \<Longrightarrow> \<exists>p \<in> set ps. \<forall>s. s \<noteq> [] \<longrightarrow> (own a s ps \<longleftrightarrow> s = p)"
begin

lemma at_most_one:
  "\<lbrakk>ps \<noteq> []; s \<noteq> []; s' \<noteq> []; own a s ps; own a s' ps\<rbrakk> \<Longrightarrow> s = s'"
  using own_winner by metis

lemma owner_is_peer: "\<lbrakk>ps \<noteq> []; s \<noteq> []; own a s ps\<rbrakk> \<Longrightarrow> s \<in> set ps"
  using own_winner by metis

lemma exactly_one:
  assumes "ps \<noteq> []" "[] \<notin> set ps"
  shows "\<exists>!p. p \<in> set ps \<and> own a p ps"
  using own_winner [OF assms(1), of a] assms(2) by metis

lemma sole_peer: "s \<noteq> [] \<Longrightarrow> own a s [p] \<longleftrightarrow> s = p"
  using own_winner [of "[p]" a] by auto

end

interpretation hrw: ownership owns
proof
  show "\<exists>p \<in> set ps. \<forall>s. s \<noteq> [] \<longrightarrow> (owns a s ps \<longleftrightarrow> s = p)" if "ps \<noteq> []" for a ps
    using that owner_of_in [OF that, of a]
    by (intro bexI [of _ "owner_of a ps"]) (auto simp: owns_def evalShardingOwner_eq)
qed (simp_all add: owns_def evalShardingOwner_eq)

lemma owns_iff: "owns a s ps \<longleftrightarrow> s = [] \<or> ps = [] \<or> owner_of a ps = s"
  by (simp add: owns_def evalShardingOwner_eq)

subsection \<open>The delimiters make the hashed bytes unambiguous\<close>

lemma itoa_no_hash: "CHR ''#'' \<notin> set (itoa v)"
proof -
  have "\<not> is_digit CHR ''#''" by (simp add: is_digit_def)
  then show ?thesis using dec_nat_digits by (auto simp: itoa_def)
qed

lemma split_at_first:
  "\<lbrakk>c \<notin> set xs; c \<notin> set ys\<rbrakk> \<Longrightarrow> xs @ c # us = ys @ c # vs \<longleftrightarrow> xs = ys \<and> us = vs"
proof (induction xs arbitrary: ys)
  case Nil
  then show ?case by (cases ys) auto
next
  case (Cons x xs)
  then show ?case by (cases ys) auto
qed

lemma split_at_last:
  assumes "c \<notin> set us" "c \<notin> set vs"
  shows "xs @ c # us = ys @ c # vs \<longleftrightarrow> xs = ys \<and> us = vs"
proof -
  have "xs @ c # us = ys @ c # vs \<longleftrightarrow> rev us @ c # rev xs = rev vs @ c # rev ys"
    by (metis rev_append rev.simps(2) append_assoc append_Cons append_Nil rev_rev_ident)
  with assms show ?thesis by (auto simp: split_at_first)
qed

lemma hash_input_inject:
  assumes "CHR 0x00 \<notin> set t" "CHR 0x00 \<notin> set t'"
  shows "hash_input t p v = hash_input t' p' v' \<longleftrightarrow> t = t' \<and> p = p' \<and> v = v'"
  using assms by (auto simp: hash_input_def split_at_first split_at_last itoa_no_hash itoa_inject)

lemma string_bytes_inject: "string_bytes s = string_bytes t \<longleftrightarrow> s = t"
proof
  have inj: "inj (of_char :: char \<Rightarrow> u8)"
  proof (rule injI)
    fix x y :: char
    assume "(of_char x :: u8) = of_char y"
    then have "unat (of_char x :: u8) = unat (of_char y :: u8)" by simp
    then have "(of_char x :: nat) = of_char y"
      using nat_of_char_less_256 [of x] nat_of_char_less_256 [of y]
      unfolding of_char_word by (simp add: unat_of_nat)
    then show "x = y" by simp
  qed
  assume "string_bytes s = string_bytes t"
  then show "s = t" using inj_map_eq_map [OF inj] by (simp add: string_bytes_def)
qed simp

subsection \<open>Properties\<close>

text \<open>
  C38. The hash of (target, peer, virtual node) is 64-bit FNV-1a over the bytes of the
  target, a NUL, the peer address, \<open>#\<close> and the decimal digits of the index, for every
  index that fits the 10-byte digit buffer; a larger index runs off the buffer (a panic),
  and a negative one contributes no digits.
\<close>

theorem hash_matches_fnv1a:
  "hashTargetPodAndVNode target podIP v =
    (if v < 0 then Some (fnv1a (string_bytes (target @ CHR 0x00 # podIP @ ''#'')))
     else if v < 10 ^ 10 then Some (fnv1a (string_bytes (target @ CHR 0x00 # podIP @ ''#'' @ itoa v)))
     else None)"
proof -
  consider "v < 0" | "0 \<le> v" "v < 10 ^ 10" | "10 ^ 10 \<le> v" by linarith
  then show ?thesis
  proof cases
    case 1
    then have "digit_loop v 10 (replicate 10 0) = Some (10, replicate 10 0)"
      by (simp add: digit_loop.simps)
    with 1 show ?thesis
      by (simp add: hashTargetPodAndVNode_def fnv1a_hash_string Let_def)
  next
    case 2
    then show ?thesis by (simp add: hashTarget_eq_fnv1a vnode_hash_def hash_input_def)
  next
    case 3
    then show ?thesis by (simp add: hashTarget_overrun)
  qed
qed

text \<open>
  C39. Boundary collisions are impossible: for targets without a NUL byte, the byte
  strings hashed for two (target, peer, virtual node) triples are equal only when the
  triples are.
\<close>

theorem hash_input_unambiguous:
  assumes "CHR 0x00 \<notin> set target" "CHR 0x00 \<notin> set target'"
    and "0 \<le> v" "v < 10 ^ 10" "0 \<le> v'" "v' < 10 ^ 10"
  shows "\<exists>bs bs'. hashTargetPodAndVNode target podIP v = Some (fnv1a bs) \<and>
    hashTargetPodAndVNode target' podIP' v' = Some (fnv1a bs') \<and>
    bs = string_bytes (hash_input target podIP v) \<and>
    bs' = string_bytes (hash_input target' podIP' v') \<and>
    (bs = bs' \<longleftrightarrow> target = target' \<and> podIP = podIP' \<and> v = v')"
  using assms
  by (simp add: hashTarget_eq_fnv1a vnode_hash_def string_bytes_inject hash_input_inject)

theorem hash_input_unambiguous_witness:
  "\<exists>bs bs'. hashTargetPodAndVNode ''a'' ''bc'' 1 = Some (fnv1a bs) \<and>
    hashTargetPodAndVNode ''ab'' ''c'' 1 = Some (fnv1a bs') \<and>
    bs = string_bytes (hash_input ''a'' ''bc'' 1) \<and>
    bs' = string_bytes (hash_input ''ab'' ''c'' 1) \<and>
    (bs = bs' \<longleftrightarrow> ''a'' = ''ab'' \<and> ''bc'' = ''c'' \<and> (1::int) = 1)"
  by (rule hash_input_unambiguous) simp_all

text \<open>
  C22. The owner test never panics and decides for exactly one position of the peer list:
  a peer whose weight (the highest hash of its 100 virtual nodes) no other peer exceeds,
  and which is strictly heavier than every peer before it.
\<close>

theorem sharding_selects_heaviest:
  assumes "peers \<noteq> []"
  shows "\<exists>i < length peers.
    (\<forall>self. self \<noteq> [] \<longrightarrow> evalShardingOwner target self peers = Some (self = peers ! i)) \<and>
    (\<forall>j < length peers. weight target (peers ! j) \<le> weight target (peers ! i)) \<and>
    (\<forall>j < i. weight target (peers ! j) < weight target (peers ! i))"
proof -
  let ?o = "owner_of target peers"
  obtain us vs where s: "peers = us @ ?o # vs" "\<forall>u \<in> set us. weight target u < weight target ?o"
    using owner_of_split [OF assms] by blast
  let ?i = "length us"
  have nth: "peers ! ?i = ?o" using s(1) by (metis nth_append_length)
  have "?i < length peers" using arg_cong [OF s(1), of length] by simp
  moreover have "evalShardingOwner target self peers = Some (self = peers ! ?i)" if "self \<noteq> []" for self
    using that assms nth by (auto simp: evalShardingOwner_eq)
  moreover have "weight target (peers ! j) \<le> weight target (peers ! ?i)" if "j < length peers" for j
    using that nth by (simp add: owner_of_max)
  moreover have "weight target (peers ! j) < weight target (peers ! ?i)" if "j < ?i" for j
  proof -
    have "peers ! j = us ! j" using that s(1) by (metis nth_append)
    with that s(2) nth show ?thesis by simp
  qed
  ultimately show ?thesis by blast
qed

theorem sharding_selects_heaviest_witness:
  "\<exists>i < length [''10.0.0.1'', ''10.0.0.2''].
    (\<forall>self. self \<noteq> [] \<longrightarrow>
      evalShardingOwner ''t'' self [''10.0.0.1'', ''10.0.0.2'']
        = Some (self = [''10.0.0.1'', ''10.0.0.2''] ! i)) \<and>
    (\<forall>j < length [''10.0.0.1'', ''10.0.0.2'']. weight ''t'' ([''10.0.0.1'', ''10.0.0.2''] ! j)
        \<le> weight ''t'' ([''10.0.0.1'', ''10.0.0.2''] ! i)) \<and>
    (\<forall>j < i. weight ''t'' ([''10.0.0.1'', ''10.0.0.2''] ! j)
        < weight ''t'' ([''10.0.0.1'', ''10.0.0.2''] ! i))"
  by (rule sharding_selects_heaviest) simp

text \<open>
  Exact partition: whatever the peer list (nonempty, every peer with an address),
  exactly one of the peers claims a target, so no target is probed twice or left out.
\<close>

lemma sharding_exactly_one_owner:
  assumes "peers \<noteq> []" "[] \<notin> set peers"
  shows "\<exists>!p. p \<in> set peers \<and> evalShardingOwner target p peers = Some True"
  using hrw.exactly_one [OF assms] by (simp add: owns_def)

lemma sharding_exactly_one_owner_witness:
  "\<exists>!p. p \<in> set [''10.0.0.1'', ''10.0.0.2''] \<and>
    evalShardingOwner ''http://10.0.0.9:80/healthz'' p [''10.0.0.1'', ''10.0.0.2''] = Some True"
  by (rule sharding_exactly_one_owner) simp_all

text \<open>
  C23. Minimal churn: when a peer joins, at any position of the list, every target an
  old peer owns afterwards was its own before, so targets only move to the new peer; read
  backwards, when a peer leaves, only its own targets move.
\<close>

theorem sharding_minimal_churn:
  assumes "evalShardingOwner target p (xs @ q # ys) = Some True" "p \<noteq> q"
  shows "evalShardingOwner target p (xs @ ys) = Some True"
  using assms owner_of_remove [of target xs q ys p] by (auto simp: evalShardingOwner_eq)

theorem sharding_minimal_churn_witness:
  "\<exists>p \<in> {''a'', ''b'', ''c''}. evalShardingOwner ''t'' p [''a'', ''b'', ''c''] = Some True \<and>
    (p \<noteq> ''c'' \<longrightarrow> evalShardingOwner ''t'' p [''a'', ''b''] = Some True) \<and>
    (p = ''c'' \<longrightarrow> evalShardingOwner ''t'' p [''b'', ''c''] = Some True)"
proof -
  obtain p where p: "p \<in> set [''a'', ''b'', ''c'']"
      "evalShardingOwner ''t'' p [''a'', ''b'', ''c''] = Some True"
    using sharding_exactly_one_owner [of "[''a'', ''b'', ''c'']" "''t''"] by auto
  have "evalShardingOwner ''t'' p [''a'', ''b''] = Some True" if "p \<noteq> ''c''"
    using sharding_minimal_churn [of "''t''" p "[''a'', ''b'']" "''c''" "[]"] p(2) that by simp
  moreover have "evalShardingOwner ''t'' p [''b'', ''c''] = Some True" if "p = ''c''"
    using sharding_minimal_churn [of "''t''" p "[]" "''a''" "[''b'', ''c'']"] p(2) that by simp
  ultimately show ?thesis using p by auto
qed

text \<open>
  Replicas that list the same peers in different orders agree on the owner, unless
  two different peers share exactly the maximal weight for the target.
\<close>

lemma sharding_order_independent:
  assumes "set peers = set peers'"
  shows "evalShardingOwner target self peers = evalShardingOwner target self peers' \<or>
    (\<exists>p \<in> set peers. \<exists>q \<in> set peers. p \<noteq> q \<and> weight target p = weight target q \<and>
      (\<forall>r \<in> set peers. weight target r \<le> weight target p))"
proof (cases "peers = []")
  case True
  with assms show ?thesis by simp
next
  case False
  let ?o = "owner_of target peers" and ?o' = "owner_of target peers'"
  have ne: "peers' \<noteq> []" using False assms by auto
  have "?o \<in> set peers" "?o' \<in> set peers"
    using owner_of_in [OF False] owner_of_in [OF ne] assms by auto
  moreover have "weight target ?o = weight target ?o'"
    using assms False by (rule owner_of_same_set)
  moreover have "?o = ?o' \<Longrightarrow> ?thesis"
    using False ne by (simp add: evalShardingOwner_eq)
  ultimately show ?thesis using owner_of_max by blast
qed

lemma sharding_order_independent_witness:
  "evalShardingOwner ''t'' ''a'' [''a'', ''b''] = evalShardingOwner ''t'' ''a'' [''b'', ''a''] \<or>
    (\<exists>p \<in> set [''a'', ''b'']. \<exists>q \<in> set [''a'', ''b'']. p \<noteq> q \<and>
      weight ''t'' p = weight ''t'' q \<and> (\<forall>r \<in> set [''a'', ''b'']. weight ''t'' r \<le> weight ''t'' p))"
  by (rule sharding_order_independent) auto

end
