(* ===== verification/Channels.thy ===== *)
theory Channels
  imports Prelude
begin

section \<open>Buffered Go channels\<close>

text \<open>
  The program uses buffered channels of the language: \<open>Registry.Events\<close> (capacity 1000)
  and \<open>jobs\<close> (capacity \<open>QUEUE_SIZE\<close>; when that is zero the channel is unbuffered, and a send
  can also be handed over directly to a receiver, a step of theory Worker). A channel is a FIFO buffer with a capacity and a
  closed flag. A send appends, blocks when the buffer is full and panics when the channel
  is closed; a receive takes the oldest element, and on an empty channel blocks or, when
  the channel is closed, reports so.
\<close>

record 'a chan =
  buf :: "'a list"
  cap :: nat
  closed :: bool

definition make_chan :: "nat \<Rightarrow> 'a chan" where
  "make_chan n = \<lparr>buf = [], cap = n, closed = False\<rparr>"

datatype 'a send_result = Sent "'a chan" | SendBlocks | SendPanics

definition chan_send :: "'a chan \<Rightarrow> 'a \<Rightarrow> 'a send_result" where
  "chan_send c x =
     (if closed c then SendPanics
      else if length (buf c) < cap c then Sent (c\<lparr>buf := buf c @ [x]\<rparr>)
      else SendBlocks)"

datatype 'a recv_result = Received 'a "'a chan" | RecvBlocks | RecvClosed

definition chan_recv :: "'a chan \<Rightarrow> 'a recv_result" where
  "chan_recv c =
     (case buf c of
        x # xs \<Rightarrow> Received x (c\<lparr>buf := xs\<rparr>)
      | [] \<Rightarrow> if closed c then RecvClosed else RecvBlocks)"

text \<open>Closing a closed channel panics: \<open>None\<close>.\<close>

definition chan_close :: "'a chan \<Rightarrow> 'a chan option" where
  "chan_close c = (if closed c then None else Some (c\<lparr>closed := True\<rparr>))"

declare make_chan_def [channel_defs] chan_send_def [channel_defs] chan_recv_def [channel_defs]
  chan_close_def [channel_defs]

definition chan_ok :: "'a chan \<Rightarrow> bool" where
  "chan_ok c \<longleftrightarrow> length (buf c) \<le> cap c"

lemma chan_ok_make [simp]: "chan_ok (make_chan n)"
  by (simp add: chan_ok_def make_chan_def)

lemma chan_send_Sent:
  "chan_send c x = Sent c' \<longleftrightarrow>
    \<not> closed c \<and> length (buf c) < cap c \<and> c' = c\<lparr>buf := buf c @ [x]\<rparr>"
  by (auto simp: chan_send_def)

lemma chan_send_panics: "chan_send c x = SendPanics \<longleftrightarrow> closed c"
  by (auto simp: chan_send_def)

lemma chan_send_blocks: "chan_send c x = SendBlocks \<longleftrightarrow> \<not> closed c \<and> cap c \<le> length (buf c)"
  by (auto simp: chan_send_def)

lemma chan_recv_Received:
  "chan_recv c = Received x c' \<longleftrightarrow> (\<exists>xs. buf c = x # xs \<and> c' = c\<lparr>buf := xs\<rparr>)"
  by (auto simp: chan_recv_def split: list.splits)

lemma chan_recv_closed: "chan_recv c = RecvClosed \<longleftrightarrow> buf c = [] \<and> closed c"
  by (auto simp: chan_recv_def split: list.splits)

lemma chan_ok_send: "chan_send c x = Sent c' \<Longrightarrow> chan_ok c'"
  by (auto simp: chan_send_Sent chan_ok_def)

lemma chan_ok_recv: "chan_ok c \<Longrightarrow> chan_recv c = Received x c' \<Longrightarrow> chan_ok c'"
  by (auto simp: chan_recv_Received chan_ok_def)

end
