(* ===== verification/Registry.thy ===== *)
theory Registry
  imports Sharding Channels
begin

section \<open>The sharded target registry (pkg/prober/registry.go)\<close>

text \<open>
  The in-memory state of all discovered targets. Every operation of the code has two
  parts: a critical section under the write lock that updates the maps and collects
  \<open>eventsToSend\<close>, and the emission of those events on the \<open>Events\<close> channel after the
  lock is released. The critical sections are functions
  \<open>Registry \<Rightarrow> Registry \<times> TargetEvent list\<close>; \<open>emitEvent\<close> gives the possible outcomes of
  one \<open>select\<close>.
\<close>

subsection \<open>Kubernetes objects, as far as the code reads them\<close>

record Endpoint =
  Addresses :: "string list"
  Ready :: "bool option"          \<comment> \<open>\<open>Conditions.Ready\<close>, a \<open>*bool\<close>\<close>

record EndpointSlice =
  SliceNamespace :: string
  SliceName :: string
  Labels :: "string \<rightharpoonup> string"
  Ports :: "int32 option list"    \<comment> \<open>\<open>Port\<close>, an \<open>*int32\<close>\<close>
  Endpoints :: "Endpoint list"

subsection \<open>State\<close>

record Registry =
  targets :: "address \<rightharpoonup> Target"
  sliceTargets :: "string \<rightharpoonup> address list"
  clusterPodIPs :: "string list"
  selfPodIP :: string
  active :: "address \<rightharpoonup> bool"
  Events :: "TargetEvent chan"

definition NewRegistry :: "string \<Rightarrow> Registry" where
  "NewRegistry self =
     \<lparr>targets = Map.empty, sliceTargets = Map.empty, clusterPodIPs = [], selfPodIP = self,
      active = Map.empty, Events = make_chan 1000\<rparr>"

definition Close :: "Registry \<Rightarrow> Registry option" where
  "Close r = map_option (\<lambda>ch. r\<lparr>Events := ch\<rparr>) (chan_close (Events r))"

definition shouldProcessTargetLocked :: "Registry \<Rightarrow> address \<Rightarrow> bool" where
  "shouldProcessTargetLocked r target \<longleftrightarrow>
     evalShardingOwner target (selfPodIP r) (clusterPodIPs r) = Some True"

definition ShouldProcessTarget :: "Registry \<Rightarrow> address \<Rightarrow> bool" where
  "ShouldProcessTarget r targetAddress = shouldProcessTargetLocked r targetAddress"

subsection \<open>Emitting one event\<close>

text \<open>
  The outcomes of the \<open>select\<close> that are ready at the moment it commits, given whether the
  context is done and whether the 100 ms timer has fired; none means it still blocks. Go
  picks any ready case. Only additions wait on a timer.
\<close>

datatype emit_result = Delivered "TargetEvent chan" | GaveUpCtx | GaveUpTimer | EmitPanic

definition send_case :: "TargetEvent \<Rightarrow> TargetEvent chan \<Rightarrow> emit_result list" where
  "send_case evt ch =
     (case chan_send ch evt of
        Sent ch' \<Rightarrow> [Delivered ch'] | SendBlocks \<Rightarrow> [] | SendPanics \<Rightarrow> [EmitPanic])"

definition emitEvent :: "bool \<Rightarrow> bool \<Rightarrow> TargetEvent \<Rightarrow> TargetEvent chan \<Rightarrow> emit_result list" where
  "emitEvent ctx_done timer_fired evt ch =
     (if IsAdded evt
      then (if ctx_done then [GaveUpCtx] else []) @ send_case evt ch
           @ (if timer_fired then [GaveUpTimer] else [])
      else (if ctx_done then [GaveUpCtx] else []) @ send_case evt ch)"

subsection \<open>UpdatePeers\<close>

definition peers_step :: "address \<Rightarrow> Registry \<times> TargetEvent list \<Rightarrow> Registry \<times> TargetEvent list" where
  "peers_step a st =
     (case st of (r, eventsToSend) \<Rightarrow>
       (case targets r a of
          None \<Rightarrow> (r, eventsToSend)
        | Some target \<Rightarrow>
            (let shouldProcess = shouldProcessTargetLocked r a;
                 isCurrentlyProcessing = get_bool (active r) a
             in if shouldProcess \<and> \<not> isCurrentlyProcessing
                then (r\<lparr>active := (active r)(a \<mapsto> True)\<rparr>, eventsToSend @ [added target])
                else if \<not> shouldProcess \<and> isCurrentlyProcessing
                then (r\<lparr>active := (active r)(a \<mapsto> False)\<rparr>, eventsToSend @ [removed target])
                else (r, eventsToSend))))"

text \<open>The first argument is the order in which \<open>range\<close> visits the map \<open>targets\<close>.\<close>

definition UpdatePeers :: "address list \<Rightarrow> string list \<Rightarrow> Registry \<Rightarrow> Registry \<times> TargetEvent list" where
  "UpdatePeers order peers r = fold peers_step order (r\<lparr>clusterPodIPs := peers\<rparr>, [])"

subsection \<open>UpdateFromEndpointSlice\<close>

definition sliceKey :: "EndpointSlice \<Rightarrow> string" where
  "sliceKey sl = SliceNamespace sl @ ''/'' @ SliceName sl"

definition activePorts :: "EndpointSlice \<Rightarrow> int32 list" where
  "activePorts sl =
     (if length (Ports sl) = 0 then [80]
      else concat (map (\<lambda>port. case port of None \<Rightarrow> [] | Some p \<Rightarrow> [p]) (Ports sl)))"

text \<open>\<open>fmt.Sprintf("%s://%s:%d%s", scheme, ip, port, path)\<close>.\<close>

definition target_address :: "string \<Rightarrow> string \<Rightarrow> int32 \<Rightarrow> string \<Rightarrow> address" where
  "target_address scheme ip port path = scheme @ ''://'' @ ip @ '':'' @ itoa (sint port) @ path"

definition newTargetList :: "EndpointSlice \<Rightarrow> string \<Rightarrow> string \<Rightarrow> address list" where
  "newTargetList sl scheme path =
     concat (map (\<lambda>ep.
       if Ready ep = None \<or> Ready ep \<noteq> Some True then []
       else concat (map (\<lambda>port.
              map (\<lambda>ip. target_address scheme ip port path) (Addresses ep))
              (activePorts sl)))
       (Endpoints sl))"

definition newTargetMap :: "address list \<Rightarrow> (address \<rightharpoonup> bool)" where
  "newTargetMap new = fold (\<lambda>a m. m(a \<mapsto> True)) new Map.empty"

definition cleanup_step ::
  "(address \<rightharpoonup> bool) \<Rightarrow> address \<Rightarrow> Registry \<times> TargetEvent list \<Rightarrow> Registry \<times> TargetEvent list" where
  "cleanup_step newMap old st =
     (case st of (r, eventsToSend) \<Rightarrow>
       if \<not> get_bool newMap old then
         (case targets r old of
            Some existing \<Rightarrow>
              if \<not> Static existing then
                (let wasActive = get_bool (active r) old
                 in (r\<lparr>targets := go_delete (targets r) old, active := go_delete (active r) old\<rparr>,
                     if wasActive
                     then eventsToSend @ [removed (zero_Target\<lparr>Address := old\<rparr>)]
                     else eventsToSend))
              else (r, eventsToSend)
          | None \<Rightarrow> (r, eventsToSend))
       else (r, eventsToSend))"

definition full_target :: "string \<Rightarrow> string \<Rightarrow> address \<Rightarrow> Target" where
  "full_target key scheme a =
     zero_Target\<lparr>Name := key, Address := a, Scheme := scheme, Static := False\<rparr>"

definition register_step ::
  "string \<Rightarrow> string \<Rightarrow> address \<Rightarrow> Registry \<times> TargetEvent list \<Rightarrow> Registry \<times> TargetEvent list" where
  "register_step key scheme new st =
     (case st of (r, eventsToSend) \<Rightarrow>
       (case targets r new of
          Some existing \<Rightarrow> (r, eventsToSend)
        | None \<Rightarrow>
            (let fullTarget = full_target key scheme new;
                 r' = r\<lparr>targets := (targets r)(new \<mapsto> fullTarget)\<rparr>
             in if shouldProcessTargetLocked r' new
                then (r'\<lparr>active := (active r')(new \<mapsto> True)\<rparr>, eventsToSend @ [added fullTarget])
                else (r', eventsToSend))))"

definition UpdateFromEndpointSlice ::
  "EndpointSlice \<Rightarrow> string \<Rightarrow> string \<Rightarrow> Registry \<Rightarrow> Registry \<times> TargetEvent list" where
  "UpdateFromEndpointSlice sl scheme path r =
     (let key = sliceKey sl;
          new = newTargetList sl scheme path;
          newMap = newTargetMap new;
          oldTargets = get_slice (sliceTargets r) key;
          st1 = fold (cleanup_step newMap) oldTargets (r, []);
          (r2, eventsToSend) = fold (register_step key scheme) new st1
      in (r2\<lparr>sliceTargets := (sliceTargets r2)(key \<mapsto> new)\<rparr>, eventsToSend))"

subsection \<open>RemoveEndpointSlice, Add, Remove\<close>

definition remove_step :: "address \<Rightarrow> Registry \<times> TargetEvent list \<Rightarrow> Registry \<times> TargetEvent list" where
  "remove_step old st =
     (case st of (r, eventsToSend) \<Rightarrow>
       if (case targets r old of Some existing \<Rightarrow> Static existing | None \<Rightarrow> False)
       then (r, eventsToSend)
       else (let wasActive = get_bool (active r) old
             in (r\<lparr>targets := go_delete (targets r) old, active := go_delete (active r) old\<rparr>,
                 if wasActive
                 then eventsToSend @ [removed (zero_Target\<lparr>Address := old\<rparr>)]
                 else eventsToSend)))"

definition RemoveEndpointSlice :: "EndpointSlice \<Rightarrow> Registry \<Rightarrow> Registry \<times> TargetEvent list" where
  "RemoveEndpointSlice sl r =
     (let key = sliceKey sl;
          oldTargets = get_slice (sliceTargets r) key;
          (r1, eventsToSend) = fold remove_step oldTargets (r, [])
      in (r1\<lparr>sliceTargets := go_delete (sliceTargets r1) key\<rparr>, eventsToSend))"

definition Add :: "Target \<Rightarrow> Registry \<Rightarrow> Registry \<times> TargetEvent list" where
  "Add target r =
     (let target = target\<lparr>Static := True\<rparr>;
          existing = targets r (Address target)
      in if (case existing of None \<Rightarrow> True | Some e \<Rightarrow> \<not> Static e)
         then (let r' = r\<lparr>targets := (targets r)(Address target \<mapsto> target)\<rparr>
               in if shouldProcessTargetLocked r' (Address target)
                  then (r'\<lparr>active := (active r')(Address target \<mapsto> True)\<rparr>, [added target])
                  else (r', []))
         else (r, []))"

definition Remove :: "address \<Rightarrow> Registry \<Rightarrow> Registry \<times> TargetEvent list" where
  "Remove a r =
     (case targets r a of
        None \<Rightarrow> (r, [])
      | Some target \<Rightarrow>
          (let wasActive = get_bool (active r) a
           in (r\<lparr>targets := go_delete (targets r) a, active := go_delete (active r) a\<rparr>,
               if wasActive then [removed target] else [])))"

subsection \<open>All operations\<close>

text \<open>
  The five operations the informers call, as one operation type; the iteration order of
  \<open>UpdatePeers\<close> is part of the operation and valid when it enumerates the map.
\<close>

datatype registry_op =
    OpUpdatePeers "address list" "string list"
  | OpUpdateSlice EndpointSlice string string
  | OpRemoveSlice EndpointSlice
  | OpAdd Target
  | OpRemove address

fun registry_step :: "Registry \<Rightarrow> registry_op \<Rightarrow> Registry \<times> TargetEvent list" where
  "registry_step r (OpUpdatePeers order peers) = UpdatePeers order peers r"
| "registry_step r (OpUpdateSlice sl scheme path) = UpdateFromEndpointSlice sl scheme path r"
| "registry_step r (OpRemoveSlice sl) = RemoveEndpointSlice sl r"
| "registry_step r (OpAdd target) = Add target r"
| "registry_step r (OpRemove a) = Remove a r"

fun valid_op :: "Registry \<Rightarrow> registry_op \<Rightarrow> bool" where
  "valid_op r (OpUpdatePeers order peers) = range_order order (targets r)"
| "valid_op r _ = True"

subsection \<open>The loops keep the event log in step with the maps\<close>

definition active_set :: "Registry \<Rightarrow> address set" where
  "active_set r = {a. get_bool (active r) a}"

text \<open>
  The loop invariant of every critical section, for the addresses \<open>A\<close> that were active
  when it began: the collected events lead from \<open>A\<close> to the addresses active now, none of
  them is redundant, targets are stored under their own address and inactive addresses
  that are not targets have no entry.
\<close>

definition well_keyed :: "Registry \<Rightarrow> bool" where
  "well_keyed r \<longleftrightarrow>
     (\<forall>a t. targets r a = Some t \<longrightarrow> Address t = a) \<and>
     (\<forall>a. targets r a = None \<longrightarrow> active r a = None)"

definition tracks :: "address set \<Rightarrow> Registry \<times> TargetEvent list \<Rightarrow> bool" where
  "tracks A st \<longleftrightarrow> replay A (snd st) = active_set (fst st) \<and> effective A (snd st) \<and> well_keyed (fst st)"

lemma tracks_start: "well_keyed r \<Longrightarrow> tracks (active_set r) (r, [])"
  by (simp add: tracks_def)

lemma tracks_peers_step: "tracks A st \<Longrightarrow> tracks A (peers_step a st)"
  by (auto simp: tracks_def peers_step_def well_keyed_def active_set_def get_bool_def Let_def
      split: prod.splits option.splits)

lemma tracks_cleanup_step: "tracks A st \<Longrightarrow> tracks A (cleanup_step m a st)"
  by (auto simp: tracks_def cleanup_step_def well_keyed_def active_set_def Let_def
      split: prod.splits option.splits)

lemma full_target_simps [simp]:
  "Address (full_target k s a) = a" "Static (full_target k s a) = False"
  "Scheme (full_target k s a) = s" "Name (full_target k s a) = k"
  by (simp_all add: full_target_def)

lemma tracks_register_step: "tracks A st \<Longrightarrow> tracks A (register_step k s a st)"
  by (auto simp: tracks_def register_step_def well_keyed_def active_set_def get_bool_def Let_def
      split: prod.splits option.splits)

lemma tracks_remove_step: "tracks A st \<Longrightarrow> tracks A (remove_step a st)"
  by (auto simp: tracks_def remove_step_def well_keyed_def active_set_def Let_def
      split: prod.splits option.splits)

subsection \<open>What the loops compute, pointwise\<close>

definition restrict_out :: "address set \<Rightarrow> Registry \<Rightarrow> Registry" where
  "restrict_out G r = r\<lparr>targets := (\<lambda>a. if a \<in> G then None else targets r a),
                        active := (\<lambda>a. if a \<in> G then None else active r a)\<rparr>"

lemma restrict_out_empty [simp]: "restrict_out {} r = r"
  by (simp add: restrict_out_def)

lemma restrict_out_fields [simp]:
  "targets (restrict_out G r) = (\<lambda>a. if a \<in> G then None else targets r a)"
  "active (restrict_out G r) = (\<lambda>a. if a \<in> G then None else active r a)"
  "sliceTargets (restrict_out G r) = sliceTargets r"
  "clusterPodIPs (restrict_out G r) = clusterPodIPs r"
  "selfPodIP (restrict_out G r) = selfPodIP r"
  "Events (restrict_out G r) = Events r"
  by (simp_all add: restrict_out_def)

lemma restrict_out_insert:
  "restrict_out G (r\<lparr>targets := go_delete (targets r) a, active := go_delete (active r) a\<rparr>)
    = restrict_out (insert a G) r"
  by (auto simp: restrict_out_def fun_eq_iff intro!: Registry.equality)

definition is_dynamic :: "Registry \<Rightarrow> address \<Rightarrow> bool" where
  "is_dynamic r a \<longleftrightarrow> (\<exists>t. targets r a = Some t \<and> \<not> Static t)"

definition is_static :: "Registry \<Rightarrow> address \<Rightarrow> bool" where
  "is_static r a \<longleftrightarrow> (\<exists>t. targets r a = Some t \<and> Static t)"

lemma cleanup_fold:
  "fst (fold (cleanup_step m) olds (r, es)) =
    restrict_out {a \<in> set olds. \<not> get_bool m a \<and> is_dynamic r a} r"
proof (induction olds arbitrary: r es)
  case Nil
  then show ?case by simp
next
  case (Cons a olds)
  let ?G = "\<lambda>r. {b \<in> set olds. \<not> get_bool m b \<and> is_dynamic r b}"
  show ?case
  proof (cases "\<not> get_bool m a \<and> is_dynamic r a")
    case True
    define r' where "r' = r\<lparr>targets := go_delete (targets r) a, active := go_delete (active r) a\<rparr>"
    obtain es' where "cleanup_step m a (r, es) = (r', es')"
      using True by (auto simp: cleanup_step_def is_dynamic_def r'_def Let_def)
    then have "fst (fold (cleanup_step m) (a # olds) (r, es)) = restrict_out (?G r') r'"
      by (simp add: Cons.IH)
    also have "\<dots> = restrict_out (insert a (?G r')) r"
      unfolding r'_def by (rule restrict_out_insert)
    also have "insert a (?G r') = {b \<in> set (a # olds). \<not> get_bool m b \<and> is_dynamic r b}"
      using True by (auto simp: is_dynamic_def r'_def split: if_splits)
    finally show ?thesis .
  next
    case False
    then have "cleanup_step m a (r, es) = (r, es)"
      by (auto simp: cleanup_step_def is_dynamic_def split: option.splits)
    moreover have "{b \<in> set (a # olds). \<not> get_bool m b \<and> is_dynamic r b} = ?G r"
      using False by auto
    ultimately show ?thesis using Cons.IH by simp
  qed
qed

lemma remove_fold:
  "fst (fold remove_step olds (r, es)) = restrict_out {a \<in> set olds. \<not> is_static r a} r"
proof (induction olds arbitrary: r es)
  case Nil
  then show ?case by simp
next
  case (Cons a olds)
  let ?G = "\<lambda>r. {b \<in> set olds. \<not> is_static r b}"
  show ?case
  proof (cases "is_static r a")
    case False
    define r' where "r' = r\<lparr>targets := go_delete (targets r) a, active := go_delete (active r) a\<rparr>"
    obtain es' where "remove_step a (r, es) = (r', es')"
      using False by (cases "targets r a") (auto simp: remove_step_def is_static_def r'_def Let_def)
    then have "fst (fold remove_step (a # olds) (r, es)) = restrict_out (?G r') r'"
      by (simp add: Cons.IH)
    also have "\<dots> = restrict_out (insert a (?G r')) r"
      unfolding r'_def by (rule restrict_out_insert)
    also have "insert a (?G r') = {b \<in> set (a # olds). \<not> is_static r b}"
      using False by (auto simp: is_static_def r'_def split: if_splits)
    finally show ?thesis .
  next
    case True
    then have "remove_step a (r, es) = (r, es)"
      by (auto simp: remove_step_def is_static_def)
    moreover have "{b \<in> set (a # olds). \<not> is_static r b} = ?G r"
      using True by auto
    ultimately show ?thesis using Cons.IH by simp
  qed
qed

definition register_all :: "string \<Rightarrow> string \<Rightarrow> address set \<Rightarrow> Registry \<Rightarrow> Registry" where
  "register_all k s N r =
     r\<lparr>targets := (\<lambda>a. if a \<in> N \<and> targets r a = None then Some (full_target k s a) else targets r a),
       active := (\<lambda>a. if a \<in> N \<and> targets r a = None \<and> shouldProcessTargetLocked r a
                      then Some True else active r a)\<rparr>"

lemma register_all_fields [simp]:
  "targets (register_all k s N r) =
     (\<lambda>a. if a \<in> N \<and> targets r a = None then Some (full_target k s a) else targets r a)"
  "active (register_all k s N r) =
     (\<lambda>a. if a \<in> N \<and> targets r a = None \<and> shouldProcessTargetLocked r a then Some True else active r a)"
  "sliceTargets (register_all k s N r) = sliceTargets r"
  "clusterPodIPs (register_all k s N r) = clusterPodIPs r"
  "selfPodIP (register_all k s N r) = selfPodIP r"
  "Events (register_all k s N r) = Events r"
  by (simp_all add: register_all_def)

lemma should_frame [simp]:
  "shouldProcessTargetLocked (r\<lparr>targets := T\<rparr>) a = shouldProcessTargetLocked r a"
  "shouldProcessTargetLocked (r\<lparr>active := B\<rparr>) a = shouldProcessTargetLocked r a"
  "shouldProcessTargetLocked (r\<lparr>sliceTargets := S\<rparr>) a = shouldProcessTargetLocked r a"
  "shouldProcessTargetLocked (restrict_out G r) a = shouldProcessTargetLocked r a"
  "shouldProcessTargetLocked (register_all k s N r) a = shouldProcessTargetLocked r a"
  by (simp_all add: shouldProcessTargetLocked_def)

lemma register_fold:
  "fst (fold (register_step k s) new (r, es)) = register_all k s (set new) r"
proof (induction new arbitrary: r es)
  case Nil
  show ?case by (simp add: register_all_def)
next
  case (Cons a new)
  show ?case
  proof (cases "targets r a")
    case (Some t)
    then have "register_step k s a (r, es) = (r, es)"
      by (simp add: register_step_def)
    with Cons.IH Some show ?thesis
      by (auto simp: register_all_def fun_eq_iff intro!: Registry.equality)
  next
    case None
    define r' where "r' = register_all k s {a} r"
    have "\<exists>es'. register_step k s a (r, es) = (r', es')"
      using None by (auto simp: register_step_def r'_def register_all_def Let_def fun_eq_iff
          intro!: Registry.equality)
    then have "fst (fold (register_step k s) (a # new) (r, es)) = register_all k s (set new) r'"
      using Cons.IH by auto
    also have "\<dots> = register_all k s (set (a # new)) r"
      by (auto simp: r'_def fun_eq_iff intro!: Registry.equality)
    finally show ?thesis .
  qed
qed

definition peers_active :: "address set \<Rightarrow> Registry \<Rightarrow> (address \<rightharpoonup> bool)" where
  "peers_active D r = (\<lambda>a. if a \<in> D \<and> targets r a \<noteq> None \<and>
        get_bool (active r) a \<noteq> shouldProcessTargetLocked r a
      then Some (shouldProcessTargetLocked r a) else active r a)"

lemma peers_fold:
  "fst (fold peers_step order (r, es)) = r\<lparr>active := peers_active (set order) r\<rparr>"
proof (induction order arbitrary: r es)
  case Nil
  show ?case by (simp add: peers_active_def)
next
  case (Cons a order)
  define r' where "r' = r\<lparr>active := peers_active {a} r\<rparr>"
  have "\<exists>es'. peers_step a (r, es) = (r', es')"
    by (auto simp: peers_step_def r'_def peers_active_def Let_def fun_eq_iff
        intro!: Registry.equality split: option.splits)
  then have "fst (fold peers_step (a # order) (r, es)) = r'\<lparr>active := peers_active (set order) r'\<rparr>"
    using Cons.IH by auto
  also have "\<dots> = r\<lparr>active := peers_active (set (a # order)) r\<rparr>"
    by (auto simp: r'_def peers_active_def fun_eq_iff get_bool_def intro!: Registry.equality)
  finally show ?case .
qed

definition peer_event :: "Registry \<Rightarrow> address \<Rightarrow> TargetEvent list" where
  "peer_event r a =
     (case targets r a of
        None \<Rightarrow> []
      | Some t \<Rightarrow>
          if shouldProcessTargetLocked r a \<and> \<not> get_bool (active r) a then [added t]
          else if \<not> shouldProcessTargetLocked r a \<and> get_bool (active r) a then [removed t]
          else [])"

lemma peers_fold_events:
  "distinct order \<Longrightarrow>
    snd (fold peers_step order (r, es)) = es @ concat (map (peer_event r) order)"
proof (induction order arbitrary: r es)
  case Nil
  show ?case by simp
next
  case (Cons a order)
  define r' where "r' = r\<lparr>active := peers_active {a} r\<rparr>"
  have "peers_step a (r, es) = (r', es @ peer_event r a)"
    by (auto simp: peers_step_def r'_def peers_active_def peer_event_def Let_def fun_eq_iff
        intro!: Registry.equality split: option.splits)
  moreover have "concat (map (peer_event r') order) = concat (map (peer_event r) order)"
    using Cons.prems
    by (intro arg_cong [where f = concat] map_cong refl)
      (auto simp: peer_event_def r'_def peers_active_def get_bool_def split: option.splits)
  ultimately show ?case using Cons by simp
qed

text \<open>The operations as state transformers.\<close>

lemma targets_of_new [simp]: "get_bool (newTargetMap new) a \<longleftrightarrow> a \<in> set new"
proof -
  have "get_bool (fold (\<lambda>a m. m(a \<mapsto> True)) new m) a \<longleftrightarrow> a \<in> set new \<or> get_bool m a" for m
    by (induction new arbitrary: m) auto
  then show ?thesis by (simp add: newTargetMap_def)
qed

definition slice_gone :: "address list \<Rightarrow> address list \<Rightarrow> Registry \<Rightarrow> address set" where
  "slice_gone olds new r = {a \<in> set olds. a \<notin> set new \<and> is_dynamic r a}"

lemma UpdateFromEndpointSlice_state:
  "fst (UpdateFromEndpointSlice sl scheme path r) =
    (let k = sliceKey sl; new = newTargetList sl scheme path
     in (register_all k scheme (set new)
          (restrict_out (slice_gone (get_slice (sliceTargets r) k) new r) r))
        \<lparr>sliceTargets := (sliceTargets r)(k \<mapsto> new)\<rparr>)"
proof -
  obtain r1 e1 where c: "fold (cleanup_step (newTargetMap (newTargetList sl scheme path)))
      (get_slice (sliceTargets r) (sliceKey sl)) (r, []) = (r1, e1)" by fastforce
  have r1: "r1 = restrict_out (slice_gone (get_slice (sliceTargets r) (sliceKey sl))
      (newTargetList sl scheme path) r) r"
    using cleanup_fold [of "newTargetMap (newTargetList sl scheme path)" _ r "[]"] c
    by (metis (no_types, lifting) Collect_cong fst_conv slice_gone_def targets_of_new)
  show ?thesis
    by (simp add: UpdateFromEndpointSlice_def Let_def c case_prod_beta register_fold r1)
qed

lemma RemoveEndpointSlice_state:
  "fst (RemoveEndpointSlice sl r) =
    (restrict_out {a \<in> set (get_slice (sliceTargets r) (sliceKey sl)). \<not> is_static r a} r)
      \<lparr>sliceTargets := go_delete (sliceTargets r) (sliceKey sl)\<rparr>"
  by (simp add: RemoveEndpointSlice_def Let_def case_prod_beta remove_fold)

lemma UpdatePeers_state:
  "range_order order (targets r) \<Longrightarrow>
    fst (UpdatePeers order peers r) =
      r\<lparr>clusterPodIPs := peers, active := peers_active (dom (targets r)) (r\<lparr>clusterPodIPs := peers\<rparr>)\<rparr>"
  by (simp add: UpdatePeers_def peers_fold range_order_def)

subsection \<open>The invariant of the registry\<close>

text \<open>
  What every operation keeps: finitely many targets, each stored under its own address;
  \<open>active\<close> speaks of targets only and says exactly which of them this replica owns under
  the current peer list; and every dynamic target is listed by the EndpointSlice whose
  key is its name.
\<close>

definition owned_active :: "Registry \<Rightarrow> bool" where
  "owned_active r \<longleftrightarrow>
     (\<forall>a. targets r a \<noteq> None \<longrightarrow> get_bool (active r) a = shouldProcessTargetLocked r a)"

definition slice_listed :: "Registry \<Rightarrow> bool" where
  "slice_listed r \<longleftrightarrow>
     (\<forall>a t. targets r a = Some t \<longrightarrow> \<not> Static t \<longrightarrow>
        a \<in> set (get_slice (sliceTargets r) (Name t)) \<and> \<not> InsecureSkipVerify t)"

definition registry_inv :: "Registry \<Rightarrow> bool" where
  "registry_inv r \<longleftrightarrow>
     finite (dom (targets r)) \<and> well_keyed r \<and> owned_active r \<and> slice_listed r"

lemma registry_inv_New: "registry_inv (NewRegistry self)"
  by (simp add: registry_inv_def NewRegistry_def well_keyed_def owned_active_def slice_listed_def)

lemma registry_inv_Events [simp]: "registry_inv (r\<lparr>Events := ch\<rparr>) = registry_inv r"
  by (simp add: registry_inv_def well_keyed_def owned_active_def slice_listed_def
      shouldProcessTargetLocked_def)

lemma active_iff:
  "registry_inv r \<Longrightarrow> get_bool (active r) a \<longleftrightarrow> targets r a \<noteq> None \<and> shouldProcessTargetLocked r a"
  by (cases "targets r a")
    (auto simp: registry_inv_def well_keyed_def owned_active_def get_bool_def)

lemma slice_listedD:
  "\<lbrakk>registry_inv r; targets r a = Some t; \<not> Static t\<rbrakk> \<Longrightarrow>
    a \<in> set (get_slice (sliceTargets r) (Name t)) \<and> \<not> InsecureSkipVerify t"
  by (simp add: registry_inv_def slice_listed_def)

lemma well_keyedD: "registry_inv r \<Longrightarrow> targets r a = Some t \<Longrightarrow> Address t = a"
  by (simp add: registry_inv_def well_keyed_def)

lemma registry_inv_UpdatePeers:
  assumes "registry_inv r" "range_order order (targets r)"
  shows "registry_inv (fst (UpdatePeers order peers r))"
proof -
  let ?r = "fst (UpdatePeers order peers r)"
  have "targets ?r = targets r" "sliceTargets ?r = sliceTargets r"
    using assms(2) by (simp_all add: UpdatePeers_state)
  moreover have "well_keyed ?r" "owned_active ?r"
    using assms by (auto simp: registry_inv_def well_keyed_def owned_active_def UpdatePeers_state
        peers_active_def get_bool_def shouldProcessTargetLocked_def)
  ultimately show ?thesis
    using assms(1) by (simp add: registry_inv_def slice_listed_def)
qed

lemma finite_dom_within:
  "finite (dom m) \<Longrightarrow> finite N \<Longrightarrow> dom m' \<subseteq> dom m \<union> N \<Longrightarrow> finite (dom m')"
  by (rule finite_subset [of _ "dom m \<union> N"]) auto

lemma registry_inv_UpdateSlice:
  assumes "registry_inv r"
  shows "registry_inv (fst (UpdateFromEndpointSlice sl scheme path r))"
proof -
  let ?r = "fst (UpdateFromEndpointSlice sl scheme path r)"
  have "finite (dom (targets ?r))"
    using assms
    by (auto simp: registry_inv_def UpdateFromEndpointSlice_state Let_def split: if_splits
        intro: finite_dom_within [of "targets r" "set (newTargetList sl scheme path)"])
  moreover have "well_keyed ?r"
    using assms by (auto simp: registry_inv_def well_keyed_def UpdateFromEndpointSlice_state Let_def
        split: if_splits)
  moreover have "owned_active ?r"
  proof -
    have "get_bool (\<lambda>a. if P a then Some True else m a) a \<longleftrightarrow> P a \<or> get_bool m a"
      "get_bool (\<lambda>a. if P a then None else m a) a \<longleftrightarrow> \<not> P a \<and> get_bool m a"
      for P :: "address \<Rightarrow> bool" and m a by (simp_all add: get_bool_def)
    then show ?thesis
      by (auto simp: owned_active_def UpdateFromEndpointSlice_state Let_def active_iff [OF assms]
          slice_gone_def)
  qed
  moreover have "slice_listed ?r"
    unfolding slice_listed_def
    by (auto simp: UpdateFromEndpointSlice_state Let_def slice_gone_def is_dynamic_def
        full_target_def zero_Target_def split: if_splits dest: slice_listedD [OF assms])
  ultimately show ?thesis by (simp add: registry_inv_def)
qed

lemma registry_inv_RemoveSlice:
  assumes "registry_inv r"
  shows "registry_inv (fst (RemoveEndpointSlice sl r))"
proof -
  let ?r = "fst (RemoveEndpointSlice sl r)"
  have "finite (dom (targets ?r))"
    using assms
    by (auto simp: registry_inv_def RemoveEndpointSlice_state split: if_splits
        intro: finite_dom_within [of "targets r" "{}"])
  moreover have "well_keyed ?r" "owned_active ?r"
    using assms
    by (auto simp: registry_inv_def well_keyed_def owned_active_def
        RemoveEndpointSlice_state get_bool_def split: if_splits)
  moreover have "slice_listed ?r"
    unfolding slice_listed_def
    by (auto simp: RemoveEndpointSlice_state is_static_def split: if_splits
        dest: slice_listedD [OF assms])
  ultimately show ?thesis by (simp add: registry_inv_def)
qed

lemma Add_state:
  "fst (Add t r) =
    (if is_static r (Address t) then r
     else r\<lparr>targets := (targets r)(Address t \<mapsto> t\<lparr>Static := True\<rparr>),
            active := (if shouldProcessTargetLocked r (Address t)
                       then (active r)(Address t \<mapsto> True) else active r)\<rparr>)"
  by (simp add: Add_def Let_def is_static_def split: option.splits)

lemma registry_inv_Add:
  assumes "registry_inv r"
  shows "registry_inv (fst (Add t r))"
proof (cases "is_static r (Address t)")
  case True
  with assms show ?thesis by (simp add: Add_state)
next
  case False
  let ?r = "fst (Add t r)"
  have "finite (dom (targets ?r))" "well_keyed ?r" "slice_listed ?r"
    using assms False by (simp_all add: Add_state registry_inv_def well_keyed_def slice_listed_def)
  moreover have "owned_active ?r"
    using assms False by (simp add: Add_state owned_active_def active_iff)
  ultimately show ?thesis by (simp add: registry_inv_def)
qed

lemma registry_inv_Remove:
  assumes "registry_inv r"
  shows "registry_inv (fst (Remove a r))"
  using assms
  by (auto simp: Remove_def Let_def registry_inv_def well_keyed_def owned_active_def slice_listed_def
      split: if_splits option.splits)

lemmas registry_inv_ops =
  registry_inv_UpdatePeers registry_inv_UpdateSlice registry_inv_RemoveSlice
  registry_inv_Add registry_inv_Remove

lemma registry_inv_step:
  "registry_inv r \<Longrightarrow> valid_op r x \<Longrightarrow> registry_inv (fst (registry_step r x))"
  by (cases x) (auto intro: registry_inv_ops)

subsection \<open>Events replay to the active set\<close>

lemma tracks_UpdatePeers: "well_keyed r \<Longrightarrow> tracks (active_set r) (UpdatePeers order peers r)"
proof -
  assume "well_keyed r"
  then have "tracks (active_set r) (r\<lparr>clusterPodIPs := peers\<rparr>, [])"
    by (simp add: tracks_def well_keyed_def active_set_def)
  then show ?thesis
    unfolding UpdatePeers_def by (rule fold_loop_invariant) (rule tracks_peers_step)
qed

lemma tracks_sliceTargets: "tracks A (r\<lparr>sliceTargets := S\<rparr>, es) = tracks A (r, es)"
  by (simp add: tracks_def well_keyed_def active_set_def)

lemma tracks_UpdateSlice:
  "well_keyed r \<Longrightarrow> tracks (active_set r) (UpdateFromEndpointSlice sl scheme path r)"
proof -
  assume "well_keyed r"
  let ?A = "active_set r"
  let ?new = "newTargetList sl scheme path"
  have "tracks ?A (fold (cleanup_step (newTargetMap ?new)) (get_slice (sliceTargets r) (sliceKey sl)) (r, []))"
    using tracks_start [OF \<open>well_keyed r\<close>] by (rule fold_loop_invariant) (rule tracks_cleanup_step)
  then have "tracks ?A (fold (register_step (sliceKey sl) scheme) ?new
      (fold (cleanup_step (newTargetMap ?new)) (get_slice (sliceTargets r) (sliceKey sl)) (r, [])))"
    by (rule fold_loop_invariant) (rule tracks_register_step)
  then show ?thesis
    by (simp add: UpdateFromEndpointSlice_def Let_def case_prod_beta tracks_sliceTargets)
qed

lemma tracks_RemoveSlice: "well_keyed r \<Longrightarrow> tracks (active_set r) (RemoveEndpointSlice sl r)"
proof -
  assume "well_keyed r"
  then have "tracks (active_set r) (r, [])" by (rule tracks_start)
  then have "tracks (active_set r)
      (fold remove_step (get_slice (sliceTargets r) (sliceKey sl)) (r, []))"
    by (rule fold_loop_invariant) (rule tracks_remove_step)
  then show ?thesis
    by (simp add: RemoveEndpointSlice_def Let_def case_prod_beta tracks_sliceTargets)
qed

lemma tracks_Remove: "well_keyed r \<Longrightarrow> tracks (active_set r) (Remove a r)"
  by (auto simp: tracks_def Remove_def Let_def well_keyed_def active_set_def split: option.splits)

text \<open>
  \<open>Add\<close> also announces a static target that takes over an address already probed as a
  dynamic one; that event is the only redundant one the registry ever emits.
\<close>

lemma replay_Add: "replay (active_set r) (snd (Add t r)) = active_set (fst (Add t r))"
  by (auto simp: Add_def Let_def active_set_def split: option.splits if_splits)

lemma registry_step_replay:
  "registry_inv r \<Longrightarrow> valid_op r x \<Longrightarrow>
    replay (active_set r) (snd (registry_step r x)) = active_set (fst (registry_step r x))"
proof (cases x)
  case (OpAdd t)
  then show ?thesis using replay_Add [of r t] by simp
qed (use tracks_UpdatePeers tracks_UpdateSlice tracks_RemoveSlice tracks_Remove
      in \<open>auto simp: tracks_def registry_inv_def\<close>)

interpretation registry_events: event_source registry_step valid_op registry_inv active_set
  by unfold_locales (simp_all add: registry_inv_step registry_step_replay)

lemma active_set_New [simp]: "active_set (NewRegistry self) = {}"
  by (simp add: active_set_def NewRegistry_def)

subsection \<open>Reachable registries\<close>

text \<open>
  Every state a registry can be in: created, then operations in any order, with the
  event channel used and closed by others in between.
\<close>

inductive reachable :: "string \<Rightarrow> Registry \<Rightarrow> bool" for self where
  created: "reachable self (NewRegistry self)"
| operation: "reachable self r \<Longrightarrow> valid_op r x \<Longrightarrow> reachable self (fst (registry_step r x))"
| channel: "reachable self r \<Longrightarrow> reachable self (r\<lparr>Events := ch\<rparr>)"

lemma reachable_inv: "reachable self r \<Longrightarrow> registry_inv r"
  by (induction rule: reachable.induct) (auto intro: registry_inv_New registry_inv_step)

lemma step_self: "valid_op r x \<Longrightarrow> selfPodIP (fst (registry_step r x)) = selfPodIP r"
  by (cases x) (auto simp: UpdatePeers_state UpdateFromEndpointSlice_state RemoveEndpointSlice_state
      Add_state Remove_def Let_def split: option.splits)

lemma reachable_self: "reachable self r \<Longrightarrow> selfPodIP r = self"
  by (induction rule: reachable.induct) (simp_all add: NewRegistry_def step_self)

lemma reachable_run:
  "reachable self r \<Longrightarrow> valid_ops registry_step valid_op r xs \<Longrightarrow>
    reachable self (fst (run_ops registry_step r xs))"
  by (induction xs arbitrary: r) (auto simp: case_prod_beta Let_def intro: reachable.operation)

subsection \<open>Lemmas on single operations\<close>

text \<open>What the slice loops do around a static target.\<close>

definition spares :: "address \<Rightarrow> Target \<Rightarrow> bool option \<Rightarrow> Registry \<times> TargetEvent list \<Rightarrow> bool" where
  "spares a t b st \<longleftrightarrow> targets (fst st) a = Some t \<and> active (fst st) a = b \<and>
     (\<forall>e \<in> set (snd st). evt_address e \<noteq> a)"

lemma spares_steps:
  assumes "Static t" "spares a t b st"
  shows "spares a t b (cleanup_step m c st)" "spares a t b (register_step k s c st)"
    "spares a t b (remove_step c st)"
  using assms
  by (auto simp: spares_def cleanup_step_def register_step_def remove_step_def Let_def
      split: prod.splits option.splits)

lemma spares_ops:
  assumes "Static t" "targets r a = Some t"
  shows "spares a t (active r a) (UpdateFromEndpointSlice sl scheme path r)"
    and "spares a t (active r a) (RemoveEndpointSlice sl r)"
proof -
  have start: "spares a t (active r a) (r, [])" using assms(2) by (simp add: spares_def)
  have frame: "spares a t b (q\<lparr>sliceTargets := S\<rparr>, es) = spares a t b (q, es)" for b q S es
    by (simp add: spares_def)
  have "spares a t (active r a) (fold (cleanup_step m) olds (r, []))" for m olds
    using start by (rule fold_loop_invariant) (rule spares_steps [OF assms(1)])
  then have "spares a t (active r a) (fold (register_step k s) new (fold (cleanup_step m) olds (r, [])))"
    for k s new m olds
    by (rule fold_loop_invariant) (rule spares_steps [OF assms(1)])
  then show "spares a t (active r a) (UpdateFromEndpointSlice sl scheme path r)"
    by (simp add: UpdateFromEndpointSlice_def Let_def case_prod_beta frame)
  have "spares a t (active r a) (fold remove_step olds (r, []))" for olds
    using start by (rule fold_loop_invariant) (rule spares_steps [OF assms(1)])
  then show "spares a t (active r a) (RemoveEndpointSlice sl r)"
    by (simp add: RemoveEndpointSlice_def Let_def case_prod_beta frame)
qed

text \<open>Loops that find nothing to do.\<close>

lemma cleanup_fold_id:
  "(\<And>a. a \<in> set olds \<Longrightarrow> get_bool m a) \<Longrightarrow> fold (cleanup_step m) olds (r, es) = (r, es)"
  by (induction olds) (auto simp: cleanup_step_def)

lemma register_fold_id:
  "(\<And>a. a \<in> set new \<Longrightarrow> targets r a \<noteq> None) \<Longrightarrow> fold (register_step k s) new (r, es) = (r, es)"
proof (induction new)
  case (Cons a new)
  then have "targets r a \<noteq> None" by simp
  then have "register_step k s a (r, es) = (r, es)" by (auto simp: register_step_def)
  with Cons show ?case by simp
qed simp

lemma set_newTargetList:
  "a \<in> set (newTargetList sl scheme path) \<longleftrightarrow>
    (\<exists>ep \<in> set (Endpoints sl). Ready ep = Some True \<and>
      (\<exists>port \<in> set (activePorts sl). \<exists>ip \<in> set (Addresses ep). a = target_address scheme ip port path))"
  by (auto simp: newTargetList_def split: if_splits)

lemma peer_event_at: "targets r a = Some t \<Longrightarrow> e \<in> set (peer_event r a) \<Longrightarrow> evt_target e = t"
  by (auto simp: peer_event_def split: if_splits)

lemma peer_event_length: "length (peer_event r a) \<le> 1"
  by (auto simp: peer_event_def split: option.splits)

lemma concat_map_filter_one:
  assumes "distinct xs" "\<And>x e. e \<in> set (f x) \<Longrightarrow> key e = x"
  shows "filter (\<lambda>e. key e = a) (concat (map f xs)) = (if a \<in> set xs then f a else [])"
  using assms(1)
proof (induction xs)
  case Nil
  show ?case by simp
next
  case (Cons x xs)
  have "filter (\<lambda>e. key e = a) (f x) = (if x = a then f a else [])"
    using assms(2) [of _ x] by (auto simp: filter_empty_conv intro!: filter_True)
  with Cons show ?case by auto
qed

subsection \<open>Examples for the witnesses\<close>

definition ex_slice :: "string \<Rightarrow> EndpointSlice" where
  "ex_slice name = \<lparr>SliceNamespace = ''ns'', SliceName = name, Labels = Map.empty,
     Ports = [Some 8080], Endpoints = [\<lparr>Addresses = [''10.1.0.1''], Ready = Some True\<rparr>]\<rparr>"

definition ex_static :: Target where
  "ex_static = zero_Target\<lparr>Name := ''api'', Address := ''tls://k8s:443'', Scheme := ''tls''\<rparr>"

definition ex_ops :: "registry_op list" where
  "ex_ops = [OpAdd ex_static, OpUpdateSlice (ex_slice ''s1'') ''http'' ''/healthz'',
     OpUpdateSlice (ex_slice ''s2'') ''http'' ''/healthz'', OpRemoveSlice (ex_slice ''s2'')]"

lemma ex_address:
  "newTargetList (ex_slice n) ''http'' ''/healthz'' = [''http://10.1.0.1:8080/healthz'']"
  by (simp add: newTargetList_def ex_slice_def activePorts_def target_address_def itoa_eval)

definition ex_registry :: Registry where
  "ex_registry = fst (run_ops registry_step (NewRegistry ''10.0.0.1'') ex_ops)"

lemma valid_ex_ops: "valid_ops registry_step valid_op r ex_ops"
  by (simp add: ex_ops_def)

subsection \<open>Properties\<close>

lemma reachable_ex: "reachable ''10.0.0.1'' ex_registry"
  unfolding ex_registry_def by (intro reachable_run reachable.created valid_ex_ops)

lemma ex_static_fields [simp]:
  "Address ex_static = ''tls://k8s:443''" "Static (ex_static\<lparr>Static := b\<rparr>) = b"
  by (simp_all add: ex_static_def)

lemma ex_sliceKey [simp]: "sliceKey (ex_slice n) = ''ns/'' @ n"
  by (simp add: sliceKey_def ex_slice_def)

lemma ex_registry_fields:
  "clusterPodIPs ex_registry = []"
  "targets ex_registry = [''tls://k8s:443'' \<mapsto> ex_static\<lparr>Static := True\<rparr>]"
  by (simp_all add: ex_registry_def ex_ops_def Add_state UpdateFromEndpointSlice_state
      RemoveEndpointSlice_state Let_def case_prod_beta NewRegistry_def is_static_def is_dynamic_def
      ex_address slice_gone_def fun_eq_iff)

text \<open>
  C4. In every state the registry can reach, the replica probes a target exactly when it
  is a known target and this replica owns it under the current peer list; every target
  sits under its own address, and a dynamic target is listed by the EndpointSlice it is
  named after and verifies TLS.
\<close>

theorem registry_active_is_owned:
  assumes "reachable self r"
  shows "(\<forall>a. get_bool (active r) a \<longleftrightarrow>
            targets r a \<noteq> None \<and> evalShardingOwner a self (clusterPodIPs r) = Some True) \<and>
    (\<forall>a t. targets r a = Some t \<longrightarrow> Address t = a \<and>
       (Static t \<or> a \<in> set (get_slice (sliceTargets r) (Name t)) \<and> \<not> InsecureSkipVerify t))"
proof -
  have inv: "registry_inv r" using assms by (rule reachable_inv)
  then show ?thesis
    using reachable_self [OF assms]
    by (auto simp: active_iff shouldProcessTargetLocked_def dest: well_keyedD slice_listedD)
qed

theorem registry_active_is_owned_witness:
  "get_bool (active ex_registry) ''tls://k8s:443'' \<and>
   \<not> get_bool (active ex_registry) ''http://10.1.0.1:8080/healthz''"
  using registry_active_is_owned [OF reachable_ex]
  by (simp add: ex_registry_fields evalShardingOwner_eq)

text \<open>
  Nothing is lost between the registry and its consumer: after any sequence of
  operations on a new registry, the emitted events, replayed in order, leave running
  exactly the targets this replica owns.
\<close>

lemma registry_events_replay:
  assumes "valid_ops registry_step valid_op (NewRegistry self) ops"
  shows "replay {} (snd (run_ops registry_step (NewRegistry self) ops)) =
    (let r = fst (run_ops registry_step (NewRegistry self) ops)
     in {a. targets r a \<noteq> None \<and> evalShardingOwner a self (clusterPodIPs r) = Some True})"
proof -
  let ?r = "fst (run_ops registry_step (NewRegistry self) ops)"
  have "reachable self ?r" using assms by (intro reachable_run reachable.created)
  then have "active_set ?r = {a. targets ?r a \<noteq> None \<and> evalShardingOwner a self (clusterPodIPs ?r) = Some True}"
    using reachable_self [of self ?r] reachable_inv [of self ?r]
    by (simp add: active_set_def active_iff shouldProcessTargetLocked_def)
  then show ?thesis
    using registry_events.run_replay [OF registry_inv_New assms] by (simp add: Let_def)
qed

lemma registry_events_replay_witness:
  "replay {} (snd (run_ops registry_step (NewRegistry ''10.0.0.1'') ex_ops)) = {''tls://k8s:443''}"
  using registry_events_replay [OF valid_ex_ops, of "''10.0.0.1''"]
  by (simp add: ex_registry_fields evalShardingOwner_eq flip: ex_registry_def)

text \<open>
  C24. Static precedence: neither an update nor a deletion of any EndpointSlice touches
  a static target: its entry and its activity stay, and no event mentions its address.
\<close>

theorem static_targets_protected:
  assumes "targets r a = Some t" "Static t"
  shows "\<forall>st \<in> {UpdateFromEndpointSlice sl scheme path r, RemoveEndpointSlice sl r}.
    targets (fst st) a = Some t \<and> active (fst st) a = active r a \<and>
    (\<forall>e \<in> set (snd st). evt_address e \<noteq> a)"
  using spares_ops [OF assms(2,1)] by (simp add: spares_def)

theorem static_targets_protected_witness:
  "targets (fst (RemoveEndpointSlice (ex_slice ''s1'') ex_registry)) ''tls://k8s:443''
     = Some (ex_static\<lparr>Static := True\<rparr>) \<and>
   targets (fst (UpdateFromEndpointSlice (ex_slice ''s1'') ''http'' ''/healthz'' ex_registry))
     ''tls://k8s:443'' = Some (ex_static\<lparr>Static := True\<rparr>)"
  using static_targets_protected [of ex_registry "''tls://k8s:443''" "ex_static\<lparr>Static := True\<rparr>"
      "ex_slice ''s1''" "''http''" "''/healthz''"]
  by (simp add: ex_registry_fields)

text \<open>
  The informer's periodic resync is harmless: applying the same EndpointSlice again
  changes nothing and emits no event.
\<close>

lemma slice_resync_noop:
  "UpdateFromEndpointSlice sl scheme path (fst (UpdateFromEndpointSlice sl scheme path r))
    = (fst (UpdateFromEndpointSlice sl scheme path r), [])"
proof -
  let ?new = "newTargetList sl scheme path"
  define r' where "r' = fst (UpdateFromEndpointSlice sl scheme path r)"
  have olds: "sliceTargets r' = (sliceTargets r)(sliceKey sl \<mapsto> ?new)"
    by (simp add: r'_def UpdateFromEndpointSlice_state Let_def)
  have "targets r' a \<noteq> None" if "a \<in> set ?new" for a
    using that by (auto simp: r'_def UpdateFromEndpointSlice_state Let_def slice_gone_def)
  then have "UpdateFromEndpointSlice sl scheme path r' =
      (r'\<lparr>sliceTargets := (sliceTargets r')(sliceKey sl \<mapsto> ?new)\<rparr>, [])"
    by (simp add: UpdateFromEndpointSlice_def Let_def olds cleanup_fold_id register_fold_id)
  then show ?thesis using olds by (simp add: r'_def [symmetric])
qed

text \<open>
  C25. Rebalancing is exact: on a new peer list, a target starts exactly when this
  replica gains it and stops exactly when it loses it, at most one event is sent per
  address, and the target set is unchanged.
\<close>

theorem rebalance_exact:
  assumes "reachable self r" "range_order order (targets r)" "targets r a = Some t"
  shows "targets (fst (UpdatePeers order peers r)) = targets r \<and>
    (added t \<in> set (snd (UpdatePeers order peers r)) \<longleftrightarrow>
       evalShardingOwner a self peers = Some True \<and>
       evalShardingOwner a self (clusterPodIPs r) \<noteq> Some True) \<and>
    (removed t \<in> set (snd (UpdatePeers order peers r)) \<longleftrightarrow>
       evalShardingOwner a self peers \<noteq> Some True \<and>
       evalShardingOwner a self (clusterPodIPs r) = Some True) \<and>
    length (filter (\<lambda>e. evt_address e = a) (snd (UpdatePeers order peers r))) \<le> 1"
proof -
  let ?r = "r\<lparr>clusterPodIPs := peers\<rparr>"
  let ?evs = "snd (UpdatePeers order peers r)"
  have inv: "registry_inv r" using assms(1) by (rule reachable_inv)
  have self: "selfPodIP r = self" using assms(1) by (rule reachable_self)
  have evs: "?evs = concat (map (peer_event ?r) order)"
    using assms(2) by (simp add: UpdatePeers_def peers_fold_events range_order_def)
  have key: "evt_address e = b" if "e \<in> set (peer_event ?r b)" for e b
    using that well_keyedD [OF inv, of b]
    by (cases "targets r b") (auto simp: peer_event_def split: if_splits)
  have one: "filter (\<lambda>e. evt_address e = a) ?evs = peer_event ?r a"
    using assms(2,3) unfolding evs
    by (subst concat_map_filter_one) (auto simp: key range_order_def)
  have mem: "e \<in> set ?evs \<longleftrightarrow> e \<in> set (peer_event ?r a)" if "evt_address e = a" for e
    using that by (simp flip: one)
  have "Address t = a" using inv assms(3) by (rule well_keyedD)
  then show ?thesis
    using assms(2,3) inv self peer_event_length [of ?r a]
    by (auto simp: mem one peer_event_def UpdatePeers_state active_iff shouldProcessTargetLocked_def)
qed

theorem rebalance_exact_witness:
  "added (ex_static\<lparr>Static := True\<rparr>)
     \<notin> set (snd (UpdatePeers [''tls://k8s:443''] [''10.0.0.2''] ex_registry)) \<and>
   removed (ex_static\<lparr>Static := True\<rparr>)
     \<in> set (snd (UpdatePeers [''tls://k8s:443''] [''10.0.0.2''] ex_registry))"
  using rebalance_exact [OF reachable_ex, of "[''tls://k8s:443'']" "''tls://k8s:443''"
      "ex_static\<lparr>Static := True\<rparr>" "[''10.0.0.2'']"]
  by (simp add: ex_registry_fields range_order_def evalShardingOwner_eq owner_of_def)

text \<open>
  C26. Reconciling an EndpointSlice, address by address: a static target stays; an
  address the slice now serves on a ready endpoint and an active port is a target, new
  ones under the slice's key and scheme; an address only its previous version served is
  gone; every other target is untouched.
\<close>

theorem slice_update_spec:
  "let r' = fst (UpdateFromEndpointSlice sl scheme path r);
       served = {target_address scheme ip port path | ep port ip.
                   ep \<in> set (Endpoints sl) \<and> Ready ep = Some True \<and>
                   port \<in> set (activePorts sl) \<and> ip \<in> set (Addresses ep)}
   in (\<exists>new. set new = served \<and> sliceTargets r' = (sliceTargets r)(sliceKey sl \<mapsto> new)) \<and>
      (\<forall>a. targets r' a =
        (if is_static r a then targets r a
         else if a \<in> served then
           (if targets r a = None then Some (full_target (sliceKey sl) scheme a) else targets r a)
         else if a \<in> set (get_slice (sliceTargets r) (sliceKey sl)) then None
         else targets r a))"
proof -
  have served: "{target_address scheme ip port path | ep port ip.
        ep \<in> set (Endpoints sl) \<and> Ready ep = Some True \<and>
        port \<in> set (activePorts sl) \<and> ip \<in> set (Addresses ep)} =
      set (newTargetList sl scheme path)"
    unfolding set_eq_iff set_newTargetList mem_Collect_eq by blast
  show ?thesis
    unfolding Let_def served
    by (auto simp: UpdateFromEndpointSlice_state Let_def slice_gone_def is_static_def is_dynamic_def)
qed

text \<open>
  C5. Across replicas: when every replica knows the same peers (each peer a replica
  under its own address) and a target, exactly one of them is probing it.
\<close>

theorem replicas_partition_targets:
  assumes "peers \<noteq> []" "[] \<notin> set peers"
    and "\<And>p. p \<in> set peers \<Longrightarrow>
      reachable p (R p) \<and> clusterPodIPs (R p) = peers \<and> targets (R p) a \<noteq> None"
  shows "\<exists>!p. p \<in> set peers \<and> get_bool (active (R p)) a"
proof -
  have "get_bool (active (R p)) a \<longleftrightarrow> owns a p peers" if "p \<in> set peers" for p
    using assms(3) [OF that] reachable_inv [of p "R p"] reachable_self [of p "R p"]
    by (simp add: active_iff shouldProcessTargetLocked_def owns_def)
  with hrw.exactly_one [OF assms(1,2), of a] show ?thesis by blast
qed

definition ex_replica :: "string \<Rightarrow> Registry" where
  "ex_replica p = fst (run_ops registry_step (NewRegistry p)
     [OpAdd ex_static, OpUpdatePeers [''tls://k8s:443''] [''10.0.0.1'', ''10.0.0.2'']])"

lemma ex_replica:
  "reachable p (ex_replica p)" "clusterPodIPs (ex_replica p) = [''10.0.0.1'', ''10.0.0.2'']"
  "targets (ex_replica p) = [''tls://k8s:443'' \<mapsto> ex_static\<lparr>Static := True\<rparr>]"
proof -
  have "targets (fst (Add ex_static (NewRegistry p))) = [''tls://k8s:443'' \<mapsto> ex_static\<lparr>Static := True\<rparr>]"
    by (simp add: Add_state NewRegistry_def is_static_def)
  then have r: "range_order [''tls://k8s:443''] (targets (fst (Add ex_static (NewRegistry p))))"
    and t: "targets (fst (Add ex_static (NewRegistry p))) = [''tls://k8s:443'' \<mapsto> ex_static\<lparr>Static := True\<rparr>]"
    by (simp_all add: range_order_def)
  show "reachable p (ex_replica p)"
    unfolding ex_replica_def using r by (intro reachable_run reachable.created) simp
  show "clusterPodIPs (ex_replica p) = [''10.0.0.1'', ''10.0.0.2'']"
    "targets (ex_replica p) = [''tls://k8s:443'' \<mapsto> ex_static\<lparr>Static := True\<rparr>]"
    by (simp_all add: ex_replica_def UpdatePeers_state [OF r] t Let_def case_prod_beta)
qed

theorem replicas_partition_targets_witness:
  "\<exists>!p. p \<in> set [''10.0.0.1'', ''10.0.0.2''] \<and> get_bool (active (ex_replica p)) ''tls://k8s:443''"
  by (rule replicas_partition_targets) (simp_all add: ex_replica)

text \<open>
  Dynamic addresses are not reference-counted: deleting one EndpointSlice drops a
  dynamic address even while a second slice still lists it, and the address is a target
  again only once that second slice is processed again with the same contents.
\<close>

lemma shared_address_dropped_until_resync:
  assumes "is_dynamic r a" "a \<in> set (get_slice (sliceTargets r) (sliceKey sl))"
    and "a \<in> set (get_slice (sliceTargets r) (sliceKey sl2))" "sliceKey sl2 \<noteq> sliceKey sl"
    and "a \<in> set (newTargetList sl2 scheme path)"
  shows "let r' = fst (RemoveEndpointSlice sl r)
    in targets r' a = None \<and> a \<in> set (get_slice (sliceTargets r') (sliceKey sl2)) \<and>
       targets (fst (UpdateFromEndpointSlice sl2 scheme path r')) a
         = Some (full_target (sliceKey sl2) scheme a)"
proof -
  have "targets (fst (RemoveEndpointSlice sl r)) a = None"
    using assms(1,2) by (auto simp: RemoveEndpointSlice_state is_dynamic_def is_static_def)
  moreover have "a \<in> set (get_slice (sliceTargets (fst (RemoveEndpointSlice sl r))) (sliceKey sl2))"
    using assms(3,4) by (simp add: RemoveEndpointSlice_state)
  ultimately show ?thesis
    using assms(5)
    by (simp add: Let_def UpdateFromEndpointSlice_state slice_gone_def)
qed

definition ex_shared :: Registry where
  "ex_shared = fst (run_ops registry_step (NewRegistry [])
     [OpUpdateSlice (ex_slice ''s1'') ''http'' ''/healthz'',
      OpUpdateSlice (ex_slice ''s2'') ''http'' ''/healthz''])"

lemma shared_address_dropped_until_resync_witness:
  "targets (fst (RemoveEndpointSlice (ex_slice ''s1'') ex_shared)) ''http://10.1.0.1:8080/healthz'' = None \<and>
   ''http://10.1.0.1:8080/healthz''
     \<in> set (get_slice (sliceTargets (fst (RemoveEndpointSlice (ex_slice ''s1'') ex_shared))) ''ns/s2'')"
  using shared_address_dropped_until_resync [of ex_shared "''http://10.1.0.1:8080/healthz''"
      "ex_slice ''s1''" "ex_slice ''s2''" "''http''" "''/healthz''"]
  by (simp add: ex_shared_def UpdateFromEndpointSlice_state Let_def case_prod_beta ex_address
      NewRegistry_def is_dynamic_def slice_gone_def)

text \<open>
  Registering a static target: an address already static is left alone (a changed
  StaticTarget is not applied); otherwise the static target replaces whatever was there,
  and it is announced exactly when this replica owns the address, even if it was already
  being probed as a dynamic one.
\<close>

lemma add_static_spec:
  "if is_static r (Address t) then Add t r = (r, [])
   else targets (fst (Add t r)) = (targets r)(Address t \<mapsto> t\<lparr>Static := True\<rparr>) \<and>
        sliceTargets (fst (Add t r)) = sliceTargets r \<and>
        snd (Add t r) = (if evalShardingOwner (Address t) (selfPodIP r) (clusterPodIPs r) = Some True
                         then [added (t\<lparr>Static := True\<rparr>)] else [])"
  by (auto simp: Add_def Let_def is_static_def shouldProcessTargetLocked_def split: option.splits)

text \<open>
  A removal event is never dropped while the program runs: as long as the context
  is not done, sending it either is delivered at the end of the queue, blocks on a full
  queue, or hits a closed channel; only additions can be given up on the timer.
\<close>

lemma removal_never_dropped:
  assumes "\<not> IsAdded evt"
  shows "emitEvent False timer_fired evt ch =
    (if closed ch then [EmitPanic]
     else if length (buf ch) < cap ch then [Delivered (ch\<lparr>buf := buf ch @ [evt]\<rparr>)]
     else [])"
  using assms by (simp add: emitEvent_def send_case_def chan_send_def)

lemma removal_never_dropped_witness:
  "emitEvent False True (removed ex_static) (make_chan 1) =
    [Delivered ((make_chan 1)\<lparr>buf := [removed ex_static]\<rparr>)]"
  using removal_never_dropped [of "removed ex_static" True "make_chan 1"]
  by (simp add: make_chan_def)

end
