(* ===== verification/Objects.thy ===== *)
theory Objects
  imports Complex_Main Registry
begin

section \<open>Objects delivered by the informers\<close>

text \<open>
  The callbacks of client-go receive values of the interface type \<open>any\<close>. The code asks
  for three dynamic types: the object it watches, the tombstone
  \<open>cache.DeletedFinalStateUnknown\<close> that carries the last known state of an object whose
  deletion was missed (itself a value of type \<open>any\<close>), and anything else. The contents of a
  custom resource are the JSON values of \<open>unstructured.Unstructured\<close>.
\<close>

datatype 'a api_object =
    Object 'a
  | DeletedFinalStateUnknown "'a api_object"
  | Foreign

text \<open>The type assertion \<open>obj.(T)\<close>.\<close>

definition assert_object :: "'a api_object \<Rightarrow> 'a option" where
  "assert_object obj = (case obj of Object x \<Rightarrow> Some x | _ \<Rightarrow> None)"

text \<open>The unwrapping at the head of both delete callbacks.\<close>

definition deleted_object :: "'a api_object \<Rightarrow> 'a option" where
  "deleted_object obj =
     (case assert_object obj of
        Some x \<Rightarrow> Some x
      | None \<Rightarrow> (case obj of DeletedFinalStateUnknown inner \<Rightarrow> assert_object inner | _ \<Rightarrow> None))"

lemma assert_object_simps [simp]:
  "assert_object (Object x) = Some x"
  "assert_object (DeletedFinalStateUnknown obj) = None"
  "assert_object Foreign = None"
  by (simp_all add: assert_object_def)

lemma deleted_object_simps [simp]:
  "deleted_object (Object x) = Some x"
  "deleted_object (DeletedFinalStateUnknown (Object x)) = Some x"
  "deleted_object (DeletedFinalStateUnknown (DeletedFinalStateUnknown obj)) = None"
  "deleted_object (DeletedFinalStateUnknown Foreign) = None"
  "deleted_object Foreign = None"
  by (simp_all add: deleted_object_def)

lemma deleted_object_Some:
  "deleted_object obj = Some x \<longleftrightarrow> obj = Object x \<or> obj = DeletedFinalStateUnknown (Object x)"
  by (auto simp: deleted_object_def assert_object_def split: api_object.splits)

datatype json =
    JNull
  | JBool bool
  | JInt int
  | JFloat real
  | JString string
  | JArray "json list"
  | JObject "string \<rightharpoonup> json"

text \<open>
  A callback either leaves the registry alone or performs one of its operations;
  \<open>apply_op\<close> is that.
\<close>

definition apply_op :: "Registry \<Rightarrow> registry_op option \<Rightarrow> Registry \<times> TargetEvent list" where
  "apply_op r x = (case x of None \<Rightarrow> (r, []) | Some op \<Rightarrow> registry_step r op)"

lemma apply_op_simps [simp]:
  "apply_op r None = (r, [])"
  "apply_op r (Some op) = registry_step r op"
  by (simp_all add: apply_op_def)

end
