(* ===== verification/StaticTargets.thy ===== *)
theory StaticTargets
  imports Objects
begin

section \<open>StaticTarget custom resources (pkg/prober/statictargets.go)\<close>

text \<open>
  Parsing a custom resource into a target and the three callbacks of its informer. The
  object is the JSON map \<open>Object\<close>; \<open>GetName\<close> is a method of the apimachinery library and
  an argument of the definitions. The informer itself (factory, cache sync) is library
  code; \<open>WatchStaticTargets\<close> registers the callbacks and waits.
\<close>

record Unstructured =
  UObject :: "string \<rightharpoonup> json"

datatype parse_error = SpecMissingOrInvalid | AddressOrSchemeMissing

definition as_string :: "json option \<Rightarrow> string" where
  "as_string v = (case v of Some (JString s) \<Rightarrow> s | _ \<Rightarrow> [])"

definition as_bool :: "json option \<Rightarrow> bool" where
  "as_bool v = (case v of Some (JBool b) \<Rightarrow> b | _ \<Rightarrow> False)"

definition parseStaticTarget ::
  "(Unstructured \<Rightarrow> string) \<Rightarrow> Unstructured \<Rightarrow> parse_error + Target" where
  "parseStaticTarget GetName u =
     (case UObject u ''spec'' of
        Some (JObject spec) \<Rightarrow>
          (let address = as_string (spec ''address'');
               scheme = as_string (spec ''scheme'');
               insecureSkipVerify = as_bool (spec ''insecureSkipVerify'')
           in if address = [] \<or> scheme = [] then Inl AddressOrSchemeMissing
              else
                (let address = (if \<not> Contains address ''://'' then scheme @ ''://'' @ address
                                else address)
                 in Inr \<lparr>Name = GetName u, Address = address, Scheme = scheme, Static = True,
                         InsecureSkipVerify = insecureSkipVerify\<rparr>))
      | _ \<Rightarrow> Inl SpecMissingOrInvalid)"

definition static_AddFunc ::
  "(Unstructured \<Rightarrow> string) \<Rightarrow> Unstructured api_object \<Rightarrow> Registry \<Rightarrow> Registry \<times> TargetEvent list" where
  "static_AddFunc GetName obj r =
     (case assert_object obj of
        None \<Rightarrow> (r, [])
      | Some u \<Rightarrow> (case parseStaticTarget GetName u of Inl err \<Rightarrow> (r, []) | Inr target \<Rightarrow> Add target r))"

definition static_UpdateFunc ::
  "(Unstructured \<Rightarrow> string) \<Rightarrow> Unstructured api_object \<Rightarrow> Unstructured api_object \<Rightarrow>
    Registry \<Rightarrow> Registry \<times> TargetEvent list" where
  "static_UpdateFunc GetName oldObj newObj r =
     (case assert_object newObj of
        None \<Rightarrow> (r, [])
      | Some u \<Rightarrow> (case parseStaticTarget GetName u of Inl err \<Rightarrow> (r, []) | Inr target \<Rightarrow> Add target r))"

definition static_DeleteFunc ::
  "(Unstructured \<Rightarrow> string) \<Rightarrow> Unstructured api_object \<Rightarrow> Registry \<Rightarrow> Registry \<times> TargetEvent list" where
  "static_DeleteFunc GetName obj r =
     (case deleted_object obj of
        None \<Rightarrow> (r, [])
      | Some u \<Rightarrow>
          (case parseStaticTarget GetName u of
             Inl err \<Rightarrow> (r, []) | Inr target \<Rightarrow> Remove (Address target) r))"

subsection \<open>Lemmas\<close>

text \<open>The registry operation a callback performs.\<close>

definition static_add_op :: "(Unstructured \<Rightarrow> string) \<Rightarrow> Unstructured api_object \<Rightarrow> registry_op option" where
  "static_add_op GetName obj =
     (case assert_object obj of
        None \<Rightarrow> None
      | Some u \<Rightarrow> (case parseStaticTarget GetName u of Inl err \<Rightarrow> None | Inr t \<Rightarrow> Some (OpAdd t)))"

definition static_delete_op :: "(Unstructured \<Rightarrow> string) \<Rightarrow> Unstructured api_object \<Rightarrow> registry_op option" where
  "static_delete_op GetName obj =
     (case deleted_object obj of
        None \<Rightarrow> None
      | Some u \<Rightarrow>
          (case parseStaticTarget GetName u of Inl err \<Rightarrow> None | Inr t \<Rightarrow> Some (OpRemove (Address t))))"

lemma static_handler_ops:
  "static_AddFunc G obj r = apply_op r (static_add_op G obj)"
  "static_UpdateFunc G old obj r = apply_op r (static_add_op G obj)"
  "static_DeleteFunc G obj r = apply_op r (static_delete_op G obj)"
  by (auto simp: static_AddFunc_def static_UpdateFunc_def static_DeleteFunc_def static_add_op_def
      static_delete_op_def split: option.splits sum.splits)

lemma parse_Inr:
  "parseStaticTarget G u = Inr t \<longleftrightarrow>
    (\<exists>spec address scheme.
      UObject u ''spec'' = Some (JObject spec) \<and>
      spec ''address'' = Some (JString address) \<and> address \<noteq> [] \<and>
      spec ''scheme'' = Some (JString scheme) \<and> scheme \<noteq> [] \<and>
      t = \<lparr>Name = G u,
           Address = (if Contains address ''://'' then address else scheme @ ''://'' @ address),
           Scheme = scheme, Static = True,
           InsecureSkipVerify = (spec ''insecureSkipVerify'' = Some (JBool True))\<rparr>)"
  by (auto simp: parseStaticTarget_def as_string_def as_bool_def Let_def
      split: option.splits json.splits if_splits)

lemma parse_static: "parseStaticTarget G u = Inr t \<Longrightarrow> Static t"
  by (auto simp: parse_Inr)

lemma Contains_scheme [simp]: "Contains (s @ ''://'' @ a) ''://''"
  unfolding Contains_iff by blast

lemma targets_Remove: "targets (fst (Remove a r)) = go_delete (targets r) a"
  by (auto simp: Remove_def Let_def split: option.splits)

lemma targets_Add: "targets (fst (Add t r)) a =
    (if a = Address t \<and> \<not> is_static r a then Some (t\<lparr>Static := True\<rparr>) else targets r a)"
  by (auto simp: Add_state)

subsection \<open>Properties\<close>

text \<open>The resource with its spec rewritten from a target, for the canonical form.\<close>

definition with_spec :: "Unstructured \<Rightarrow> Target \<Rightarrow> Unstructured" where
  "with_spec u t = u\<lparr>UObject := (UObject u)(''spec'' \<mapsto>
     JObject [''address'' \<mapsto> JString (Address t), ''scheme'' \<mapsto> JString (Scheme t),
              ''insecureSkipVerify'' \<mapsto> JBool (InsecureSkipVerify t)])\<rparr>"

definition ex_crd :: "string \<Rightarrow> Unstructured" where
  "ex_crd addr = \<lparr>UObject = [''metadata'' \<mapsto> JObject [''name'' \<mapsto> JString ''db''],
     ''spec'' \<mapsto> JObject [''address'' \<mapsto> JString addr, ''scheme'' \<mapsto> JString ''tcp'']]\<rparr>"

text \<open>\<open>GetName\<close> as documented: the string at \<open>metadata.name\<close>.\<close>

definition ex_GetName :: "Unstructured \<Rightarrow> string" where
  "ex_GetName u = (case UObject u ''metadata'' of
     Some (JObject m) \<Rightarrow> as_string (m ''name'') | _ \<Rightarrow> [])"

lemma parse_ex_crd:
  "parseStaticTarget ex_GetName (ex_crd ''db:5432'') = Inr \<lparr>Name = ''db'', Address = ''tcp://db:5432'',
     Scheme = ''tcp'', Static = True, InsecureSkipVerify = False\<rparr>"
  "parseStaticTarget ex_GetName (ex_crd ''tcp://db2:5432'') = Inr \<lparr>Name = ''db'', Address = ''tcp://db2:5432'',
     Scheme = ''tcp'', Static = True, InsecureSkipVerify = False\<rparr>"
  by (simp_all add: parseStaticTarget_def ex_crd_def ex_GetName_def as_string_def as_bool_def
      HasPrefix_def)

text \<open>
  C35. Parsing normalises a custom resource: the target is static, has a scheme and an
  address that names one ("://"), and is a fixed point, that is, writing it back into the
  resource's spec parses to the same target. The name is read from the metadata only.
\<close>

theorem parse_static_canonical:
  assumes "parseStaticTarget GetName u = Inr t"
    and "\<And>v. UObject v ''metadata'' = UObject u ''metadata'' \<Longrightarrow> GetName v = GetName u"
  shows "Static t \<and> Scheme t \<noteq> [] \<and> Contains (Address t) ''://'' \<and>
    parseStaticTarget GetName (with_spec u t) = Inr t"
proof -
  obtain spec a s where p: "UObject u ''spec'' = Some (JObject spec)" "a \<noteq> []" "s \<noteq> []"
    and t: "t = \<lparr>Name = GetName u,
      Address = (if Contains a ''://'' then a else s @ ''://'' @ a),
      Scheme = s, Static = True, InsecureSkipVerify = (spec ''insecureSkipVerify'' = Some (JBool True))\<rparr>"
    using assms(1) unfolding parse_Inr by blast
  have c: "Contains (Address t) ''://''"
    using Contains_scheme [of s a] by (simp add: t)
  moreover from p have "Address t \<noteq> []" by (simp add: t)
  moreover have "GetName (with_spec u t) = Name t"
    using assms(2) [of "with_spec u t"] by (simp add: with_spec_def t)
  ultimately have "parseStaticTarget GetName (with_spec u t) = Inr t"
    using p by (simp add: parseStaticTarget_def with_spec_def as_string_def as_bool_def t)
  with c p show ?thesis by (simp add: t)
qed

theorem parse_static_canonical_witness:
  "parseStaticTarget ex_GetName (with_spec (ex_crd ''db:5432'') \<lparr>Name = ''db'', Address = ''tcp://db:5432'',
     Scheme = ''tcp'', Static = True, InsecureSkipVerify = False\<rparr>) = Inr \<lparr>Name = ''db'',
     Address = ''tcp://db:5432'', Scheme = ''tcp'', Static = True, InsecureSkipVerify = False\<rparr>"
  by (rule parse_static_canonical [THEN conjunct2, THEN conjunct2, THEN conjunct2, OF parse_ex_crd(1)])
    (simp add: ex_GetName_def)

text \<open>
  C36. The life of a custom resource: once its deletion is handled, as the object itself
  or as a tombstone, its address is no target. But an update that changes the address
  does not look at the old object: the old address stays a static target after the update,
  and still after the resource is deleted.
\<close>

theorem static_update_leaks_old_address:
  assumes "parseStaticTarget GetName u = Inr t" "parseStaticTarget GetName u' = Inr t'"
    and "Address t' \<noteq> Address t" "del \<in> {Object u', DeletedFinalStateUnknown (Object u')}"
  shows "let r1 = fst (static_AddFunc GetName (Object u) r);
             r2 = fst (static_UpdateFunc GetName (Object u) (Object u') r1);
             r3 = fst (static_DeleteFunc GetName del r2)
         in is_static r2 (Address t) \<and> is_static r2 (Address t') \<and>
            targets r3 (Address t') = None \<and> is_static r3 (Address t)"
proof -
  have "static_delete_op GetName del = Some (OpRemove (Address t'))"
    using assms(2,4) by (auto simp: static_delete_op_def)
  then show ?thesis
    using assms(1-3)
    by (auto simp: static_handler_ops static_add_op_def Let_def targets_Remove targets_Add is_static_def)
qed

theorem static_update_leaks_old_address_witness:
  "let r1 = fst (static_AddFunc ex_GetName (Object (ex_crd ''db:5432'')) (NewRegistry []));
       r2 = fst (static_UpdateFunc ex_GetName (Object (ex_crd ''db:5432''))
                  (Object (ex_crd ''tcp://db2:5432'')) r1);
       r3 = fst (static_DeleteFunc ex_GetName (Object (ex_crd ''tcp://db2:5432'')) r2)
   in targets r3 ''tcp://db2:5432'' = None \<and> is_static r3 ''tcp://db:5432''"
  using static_update_leaks_old_address [OF parse_ex_crd, of "Object (ex_crd ''tcp://db2:5432'')" "NewRegistry []"]
  by (simp add: Let_def)

end
