(* ===== verification/Informer.thy ===== *)
theory Informer
  imports StaticTargets
begin

section \<open>The Kubernetes watcher (pkg/prober/informer.go)\<close>

text \<open>
  The callbacks of the EndpointSlice informer, the lookup of a Service's probe
  annotations and the discovery of the prober's own replicas. The lister of the Service
  cache is client-go code: it is the argument \<open>svcLister\<close>, from namespace and name to the
  cached Service (\<open>None\<close> when \<open>Get\<close> fails); the informer's store is the list its \<open>List\<close>
  method returned. The registry is the watcher's only state of its own. Starting the
  factory and waiting for the caches is library code.
\<close>

definition probeEnabled :: string where
  "probeEnabled = ''true''"

record Service =
  Annotations :: "(string \<rightharpoonup> string) option"   \<comment> \<open>\<open>None\<close> is the nil map\<close>

type_synonym lister = "string \<Rightarrow> string \<Rightarrow> Service option"

definition getProbeSchemeAndPath :: "EndpointSlice \<Rightarrow> lister \<Rightarrow> string \<times> string" where
  "getProbeSchemeAndPath sl svcLister =
     (let svcName = get_string (Labels sl) ''kubernetes.io/service-name'';
          scheme = ''http'';
          path = ''/healthz''
      in if svcName = [] then (scheme, path)
         else
           (case svcLister (SliceNamespace sl) svcName of
              None \<Rightarrow> (scheme, path)
            | Some svc \<Rightarrow>
                (case Annotations svc of
                   None \<Rightarrow> (scheme, path)
                 | Some ann \<Rightarrow>
                     (let scheme = (case ann ''probe/scheme'' of
                                      Some s \<Rightarrow> if s \<noteq> [] then s else scheme
                                    | None \<Rightarrow> scheme);
                          path = (case ann ''probe/path'' of Some p \<Rightarrow> p | None \<Rightarrow> path)
                      in (scheme, path)))))"

subsection \<open>EndpointSlice callbacks\<close>

definition probe_label :: "EndpointSlice \<Rightarrow> bool" where
  "probe_label sl \<longleftrightarrow> get_string (Labels sl) ''probe'' = probeEnabled"

definition slice_AddFunc ::
  "lister \<Rightarrow> EndpointSlice api_object \<Rightarrow> Registry \<Rightarrow> Registry \<times> TargetEvent list" where
  "slice_AddFunc svcLister obj r =
     (case assert_object obj of
        Some sl \<Rightarrow>
          if probe_label sl
          then (let (scheme, path) = getProbeSchemeAndPath sl svcLister
                in UpdateFromEndpointSlice sl scheme path r)
          else (r, [])
      | None \<Rightarrow> (r, []))"

definition slice_UpdateFunc ::
  "lister \<Rightarrow> EndpointSlice api_object \<Rightarrow> EndpointSlice api_object \<Rightarrow> Registry \<Rightarrow>
    Registry \<times> TargetEvent list" where
  "slice_UpdateFunc svcLister oldObj newObj r =
     (case assert_object newObj of
        Some newSlice \<Rightarrow>
          if probe_label newSlice
          then (let (scheme, path) = getProbeSchemeAndPath newSlice svcLister
                in UpdateFromEndpointSlice newSlice scheme path r)
          else RemoveEndpointSlice newSlice r
      | None \<Rightarrow> (r, []))"

definition slice_DeleteFunc ::
  "EndpointSlice api_object \<Rightarrow> Registry \<Rightarrow> Registry \<times> TargetEvent list" where
  "slice_DeleteFunc obj r =
     (case deleted_object obj of
        None \<Rightarrow> (r, [])
      | Some sl \<Rightarrow> if probe_label sl then RemoveEndpointSlice sl r else (r, []))"

subsection \<open>Peer discovery\<close>

definition peer_ips :: "EndpointSlice api_object list \<Rightarrow> string list" where
  "peer_ips store =
     concat (map (\<lambda>obj.
       case assert_object obj of
         Some sl \<Rightarrow>
           if get_string (Labels sl) ''kubernetes.io/service-name'' = ''kube-prober''
           then concat (map (\<lambda>ep. if Ready ep = Some True then Addresses ep else []) (Endpoints sl))
           else []
       | None \<Rightarrow> []) store)"

text \<open>
  The closure \<open>updatePeers\<close>, which all three callbacks and the end of the initial sync
  call; \<open>order\<close> is the iteration order of the registry's map in \<open>UpdatePeers\<close>.
\<close>

definition updatePeers ::
  "EndpointSlice api_object list \<Rightarrow> address list \<Rightarrow> Registry \<Rightarrow> Registry \<times> TargetEvent list" where
  "updatePeers store order r =
     (let peerIPs = peer_ips store in
      if length peerIPs > 0 then UpdatePeers order peerIPs r else (r, []))"

subsection \<open>All callbacks\<close>

text \<open>
  What the informers can call, as one type of inputs, and the callback each input runs.
  An input carries what the library passes or holds at that moment: the object, the
  Service lister, the contents of the store.
\<close>

datatype informer_event =
    SliceAdded lister "EndpointSlice api_object"
  | SliceUpdated lister "EndpointSlice api_object" "EndpointSlice api_object"
  | SliceDeleted "EndpointSlice api_object"
  | PeersChanged "EndpointSlice api_object list" "address list"
  | CRDAdded "Unstructured api_object"
  | CRDUpdated "Unstructured api_object" "Unstructured api_object"
  | CRDDeleted "Unstructured api_object"

fun informer_step ::
  "(Unstructured \<Rightarrow> string) \<Rightarrow> Registry \<Rightarrow> informer_event \<Rightarrow> Registry \<times> TargetEvent list" where
  "informer_step G r (SliceAdded svcLister obj) = slice_AddFunc svcLister obj r"
| "informer_step G r (SliceUpdated svcLister old new) = slice_UpdateFunc svcLister old new r"
| "informer_step G r (SliceDeleted obj) = slice_DeleteFunc obj r"
| "informer_step G r (PeersChanged store order) = updatePeers store order r"
| "informer_step G r (CRDAdded obj) = static_AddFunc G obj r"
| "informer_step G r (CRDUpdated old new) = static_UpdateFunc G old new r"
| "informer_step G r (CRDDeleted obj) = static_DeleteFunc G obj r"

fun valid_informer :: "Registry \<Rightarrow> informer_event \<Rightarrow> bool" where
  "valid_informer r (PeersChanged store order) = range_order order (targets r)"
| "valid_informer r _ = True"

subsection \<open>Every callback is at most one registry operation\<close>

definition slice_add_op :: "lister \<Rightarrow> EndpointSlice api_object \<Rightarrow> registry_op option" where
  "slice_add_op L obj =
     (case assert_object obj of
        Some sl \<Rightarrow>
          if probe_label sl
          then Some (OpUpdateSlice sl (fst (getProbeSchemeAndPath sl L)) (snd (getProbeSchemeAndPath sl L)))
          else None
      | None \<Rightarrow> None)"

definition slice_update_op :: "lister \<Rightarrow> EndpointSlice api_object \<Rightarrow> registry_op option" where
  "slice_update_op L obj =
     (case assert_object obj of
        Some sl \<Rightarrow>
          Some (if probe_label sl
                then OpUpdateSlice sl (fst (getProbeSchemeAndPath sl L)) (snd (getProbeSchemeAndPath sl L))
                else OpRemoveSlice sl)
      | None \<Rightarrow> None)"

definition slice_delete_op :: "EndpointSlice api_object \<Rightarrow> registry_op option" where
  "slice_delete_op obj =
     (case deleted_object obj of
        None \<Rightarrow> None
      | Some sl \<Rightarrow> if probe_label sl then Some (OpRemoveSlice sl) else None)"

fun informer_op :: "(Unstructured \<Rightarrow> string) \<Rightarrow> informer_event \<Rightarrow> registry_op option" where
  "informer_op G (SliceAdded L obj) = slice_add_op L obj"
| "informer_op G (SliceUpdated L old new) = slice_update_op L new"
| "informer_op G (SliceDeleted obj) = slice_delete_op obj"
| "informer_op G (PeersChanged store order) =
     (if peer_ips store = [] then None else Some (OpUpdatePeers order (peer_ips store)))"
| "informer_op G (CRDAdded obj) = static_add_op G obj"
| "informer_op G (CRDUpdated old new) = static_add_op G new"
| "informer_op G (CRDDeleted obj) = static_delete_op G obj"

lemma informer_step_op: "informer_step G r x = apply_op r (informer_op G x)"
  by (cases x)
    (auto simp: static_handler_ops slice_AddFunc_def slice_UpdateFunc_def slice_DeleteFunc_def
      updatePeers_def slice_add_op_def slice_update_op_def slice_delete_op_def
      split: option.splits prod.splits)

lemma static_ops_valid:
  "static_add_op G obj = Some op \<Longrightarrow> valid_op r op"
  "static_delete_op G obj = Some op \<Longrightarrow> valid_op r op"
  by (auto simp: static_add_op_def static_delete_op_def split: option.splits sum.splits)

lemma slice_ops_valid:
  "slice_add_op L o1 = Some op \<Longrightarrow> valid_op r op"
  "slice_update_op L o1 = Some op \<Longrightarrow> valid_op r op"
  "slice_delete_op o1 = Some op \<Longrightarrow> valid_op r op"
  by (auto simp: slice_add_op_def slice_update_op_def slice_delete_op_def split: option.splits if_splits)

lemma informer_op_valid:
  "valid_informer r x \<Longrightarrow> informer_op G x = Some op \<Longrightarrow> valid_op r op"
  by (cases x) (auto dest: static_ops_valid slice_ops_valid split: if_splits)

lemma reachable_informer_step:
  "reachable self r \<Longrightarrow> valid_informer r x \<Longrightarrow> reachable self (fst (informer_step G r x))"
  using informer_op_valid [of r x G]
  by (cases "informer_op G x") (auto simp: informer_step_op intro: reachable.operation)

lemma reachable_informer_run:
  "reachable self r \<Longrightarrow> valid_ops (informer_step G) valid_informer r xs \<Longrightarrow>
    reachable self (fst (run_ops (informer_step G) r xs))"
  by (induction xs arbitrary: r) (auto simp: case_prod_beta Let_def intro: reachable_informer_step)

text \<open>The callbacks keep the contract of an event source.\<close>

interpretation informer_events: event_source "informer_step G" valid_informer registry_inv active_set
proof
  fix r x assume "registry_inv r" "valid_informer r x"
  then show "registry_inv (fst (informer_step G r x))"
    "replay (active_set r) (snd (informer_step G r x)) = active_set (fst (informer_step G r x))"
    using informer_op_valid [of r x G] registry_inv_step registry_step_replay
    by (cases "informer_op G x"; simp add: informer_step_op)+
qed

text \<open>Which addresses peer discovery collects.\<close>

lemma peer_ips_Cons:
  "set (peer_ips (obj # store)) = set (peer_ips [obj]) \<union> set (peer_ips store)"
  by (simp add: peer_ips_def)

lemma peer_ips_one:
  "ip \<in> set (peer_ips [obj]) \<longleftrightarrow> (\<exists>sl ep. obj = Object sl \<and>
      Labels sl ''kubernetes.io/service-name'' = Some ''kube-prober'' \<and>
      ep \<in> set (Endpoints sl) \<and> Ready ep = Some True \<and> ip \<in> set (Addresses ep))"
  by (cases obj) (auto simp: peer_ips_def get_string_def split: option.splits if_splits)

lemma set_peer_ips:
  "ip \<in> set (peer_ips store) \<longleftrightarrow> (\<exists>sl ep. Object sl \<in> set store \<and>
      Labels sl ''kubernetes.io/service-name'' = Some ''kube-prober'' \<and>
      ep \<in> set (Endpoints sl) \<and> Ready ep = Some True \<and> ip \<in> set (Addresses ep))"
proof (induction store)
  case Nil
  show ?case by (simp add: peer_ips_def)
next
  case (Cons obj store)
  then show ?case
    by (subst peer_ips_Cons) (auto simp: peer_ips_one)
qed

subsection \<open>Properties\<close>

definition ex_labelled :: "string \<Rightarrow> EndpointSlice" where
  "ex_labelled svc = (ex_slice ''web'')\<lparr>Labels :=
     [''probe'' \<mapsto> ''true'', ''kubernetes.io/service-name'' \<mapsto> svc]\<rparr>"

definition ex_lister :: lister where
  "ex_lister ns name = (if ns = ''ns'' \<and> name = ''web''
     then Some \<lparr>Annotations = Some [''probe/scheme'' \<mapsto> ''tcp'', ''probe/path'' \<mapsto> []]\<rparr> else None)"

lemma ex_labelled_fields [simp]:
  "probe_label (ex_labelled svc)" "sliceKey (ex_labelled svc) = ''ns/web''"
  "Labels (ex_labelled svc) = [''probe'' \<mapsto> ''true'', ''kubernetes.io/service-name'' \<mapsto> svc]"
  "SliceNamespace (ex_labelled svc) = ''ns''"
  "Endpoints (ex_labelled svc) = [\<lparr>Addresses = [''10.1.0.1''], Ready = Some True\<rparr>]"
  "activePorts (ex_labelled svc) = [8080]"
  by (simp_all add: ex_labelled_def ex_slice_def probe_label_def probeEnabled_def sliceKey_def
      activePorts_def get_string_def)

text \<open>
  C34. Discovery end to end: when a labelled EndpointSlice of a Service with annotations is
  added or updated, each IP of a ready endpoint at each active port is a target at
  scheme://ip:port followed by the path, unless the address is a static target. The scheme
  is the annotation's when that is set and not empty, else http; the path is the
  annotation's whenever it is set, even to the empty string, else /healthz.
\<close>

theorem annotated_slice_discovered:
  assumes "probe_label sl" "get_string (Labels sl) ''kubernetes.io/service-name'' = name" "name \<noteq> []"
    and "svcLister (SliceNamespace sl) name = Some svc" "Annotations svc = Some ann"
    and "ep \<in> set (Endpoints sl)" "Ready ep = Some True" "ip \<in> set (Addresses ep)"
    and "port \<in> set (activePorts sl)"
  shows "let scheme = (if get_string ann ''probe/scheme'' = [] then ''http''
                       else get_string ann ''probe/scheme'');
             path = (case ann ''probe/path'' of None \<Rightarrow> ''/healthz'' | Some p \<Rightarrow> p);
             a = scheme @ ''://'' @ ip @ '':'' @ itoa (sint port) @ path
    in \<forall>r' \<in> {fst (slice_AddFunc svcLister (Object sl) r),
               fst (slice_UpdateFunc svcLister old (Object sl) r)}.
         targets r' a \<noteq> None \<and>
         (targets r a = None \<longrightarrow> targets r' a = Some (full_target (sliceKey sl) scheme a))"
proof -
  let ?scheme = "if get_string ann ''probe/scheme'' = [] then ''http'' else get_string ann ''probe/scheme''"
  let ?path = "case ann ''probe/path'' of None \<Rightarrow> ''/healthz'' | Some p \<Rightarrow> p"
  let ?a = "?scheme @ ''://'' @ ip @ '':'' @ itoa (sint port) @ ?path"
  have params: "getProbeSchemeAndPath sl svcLister = (?scheme, ?path)"
    using assms(2-5) by (auto simp: getProbeSchemeAndPath_def Let_def get_string_def split: option.splits)
  have served: "?a \<in> set (newTargetList sl ?scheme ?path)"
    using assms(6-9) unfolding set_newTargetList target_address_def by blast
  have "fst (slice_AddFunc svcLister (Object sl) r) = fst (UpdateFromEndpointSlice sl ?scheme ?path r)"
    "fst (slice_UpdateFunc svcLister old (Object sl) r) = fst (UpdateFromEndpointSlice sl ?scheme ?path r)"
    using assms(1) params by (simp_all add: slice_AddFunc_def slice_UpdateFunc_def)
  then show ?thesis
    using served by (simp add: Let_def UpdateFromEndpointSlice_state slice_gone_def)
qed

theorem annotated_slice_discovered_witness:
  "targets (fst (slice_AddFunc ex_lister (Object (ex_labelled ''web'')) (NewRegistry [])))
     ''tcp://10.1.0.1:8080'' = Some (full_target ''ns/web'' ''tcp'' ''tcp://10.1.0.1:8080'')"
  using annotated_slice_discovered [of "ex_labelled ''web''" "''web''" ex_lister
      "\<lparr>Annotations = Some [''probe/scheme'' \<mapsto> ''tcp'', ''probe/path'' \<mapsto> []]\<rparr>"
      "[''probe/scheme'' \<mapsto> ''tcp'', ''probe/path'' \<mapsto> []]"
      "\<lparr>Addresses = [''10.1.0.1''], Ready = Some True\<rparr>" "''10.1.0.1''" 8080 "NewRegistry []"]
  by (simp add: ex_lister_def get_string_def itoa_eval NewRegistry_def Let_def)

text \<open>
  When an EndpointSlice loses the probe label, or a labelled one is deleted (directly
  or as a tombstone), every address its last version listed stops being a target unless it
  is static, and the slice is forgotten; an unlabelled slice is ignored when added.
\<close>

lemma slice_removal_complete:
  assumes "x \<in> {SliceUpdated svcLister old (Object sl) | svcLister old. \<not> probe_label sl} \<union>
      {SliceDeleted obj | obj. probe_label sl \<and> obj \<in> {Object sl, DeletedFinalStateUnknown (Object sl)}}"
  shows "(\<forall>a \<in> set (get_slice (sliceTargets r) (sliceKey sl)).
        targets (fst (informer_step G r x)) a = None \<or> is_static r a) \<and>
    sliceTargets (fst (informer_step G r x)) (sliceKey sl) = None \<and>
    (\<not> probe_label sl \<longrightarrow> informer_step G r (SliceAdded svcLister (Object sl)) = (r, []))"
proof -
  have "informer_op G x = Some (OpRemoveSlice sl)"
    using assms by (auto simp: slice_update_op_def slice_delete_op_def)
  then have "informer_step G r x = RemoveEndpointSlice sl r"
    by (simp add: informer_step_op)
  moreover have "\<not> probe_label sl \<Longrightarrow> informer_op G (SliceAdded svcLister (Object sl)) = None"
    by (simp add: slice_add_op_def)
  ultimately show ?thesis
    by (auto simp: informer_step_op RemoveEndpointSlice_state)
qed

lemma slice_removal_complete_witness:
  "targets (fst (informer_step ex_GetName
      (fst (slice_AddFunc ex_lister (Object (ex_labelled ''other'')) (NewRegistry [])))
      (SliceDeleted (DeletedFinalStateUnknown (Object (ex_labelled ''other''))))))
      ''http://10.1.0.1:8080/healthz'' = None"
proof -
  let ?r = "fst (slice_AddFunc ex_lister (Object (ex_labelled ''other'')) (NewRegistry []))"
  have "getProbeSchemeAndPath (ex_labelled ''other'') ex_lister = (''http'', ''/healthz'')"
    by (simp add: getProbeSchemeAndPath_def ex_lister_def get_string_def)
  moreover have "newTargetList (ex_labelled ''other'') ''http'' ''/healthz'' = [''http://10.1.0.1:8080/healthz'']"
    by (simp add: newTargetList_def target_address_def itoa_eval)
  ultimately have r: "?r = fst (UpdateFromEndpointSlice (ex_labelled ''other'') ''http'' ''/healthz'' (NewRegistry []))"
    and l: "''http://10.1.0.1:8080/healthz'' \<in> set (get_slice (sliceTargets ?r) ''ns/web'')"
    and s: "\<not> is_static ?r ''http://10.1.0.1:8080/healthz''"
    by (simp_all add: slice_AddFunc_def UpdateFromEndpointSlice_state is_static_def NewRegistry_def Let_def)
  have "\<forall>a \<in> set (get_slice (sliceTargets ?r) ''ns/web'').
      targets (fst (informer_step ex_GetName ?r (SliceDeleted (DeletedFinalStateUnknown (Object (ex_labelled ''other'')))))) a
        = None \<or> is_static ?r a"
    using slice_removal_complete [of "SliceDeleted (DeletedFinalStateUnknown (Object (ex_labelled ''other'')))"
        "ex_labelled ''other''" ?r ex_GetName] by simp
  with l s show ?thesis by blast
qed

text \<open>
  Peer discovery: the replicas are the addresses of the ready endpoints of the
  kube-prober Service's slices. A non-empty result becomes the registry's peer list; an
  empty one (no replica ready, or the slices gone) leaves the registry as it is, so a peer
  list once known never becomes empty.
\<close>

lemma peer_discovery:
  assumes "range_order order (targets r)"
  shows "set (peer_ips store) = {ip. \<exists>sl ep. Object sl \<in> set store \<and>
        Labels sl ''kubernetes.io/service-name'' = Some ''kube-prober'' \<and>
        ep \<in> set (Endpoints sl) \<and> Ready ep = Some True \<and> ip \<in> set (Addresses ep)} \<and>
    (if peer_ips store = [] then updatePeers store order r = (r, [])
     else clusterPodIPs (fst (updatePeers store order r)) = peer_ips store) \<and>
    (clusterPodIPs r \<noteq> [] \<longrightarrow> clusterPodIPs (fst (updatePeers store order r)) \<noteq> [])"
proof -
  show ?thesis
    using assms set_peer_ips [of _ store] by (auto simp: updatePeers_def UpdatePeers_state Let_def)
qed

lemma peer_discovery_witness:
  "clusterPodIPs (fst (updatePeers [Foreign, Object (ex_labelled ''kube-prober'')] [] (NewRegistry [])))
     = [''10.1.0.1'']"
  using peer_discovery [of "[]" "NewRegistry []" "[Foreign, Object (ex_labelled ''kube-prober'')]"]
  by (simp add: range_order_def NewRegistry_def peer_ips_def get_string_def)

end
