(* ===== verification/Errors.thy ===== *)
theory Errors
  imports Prelude
begin

section \<open>Error categories and classification (pkg/prober/prober.go)\<close>

text \<open>
  \<open>ErrorCategory\<close> is a string type; the empty string is success. A Go error is a tree:
  a value of some dynamic type and the errors its \<open>Unwrap\<close> method returns. \<open>errors.Is\<close>
  and \<open>errors.As\<close> of the standard library walk that tree depth first. Package
  \<open>google.golang.org/grpc/status\<close> is not part of the repository: its function
  \<open>FromError\<close> is an argument of \<open>MapToCategory\<close>, returning the status code when the
  error carries a gRPC status.
\<close>

subsection \<open>Categories\<close>

type_synonym ErrorCategory = string

definition CategoryDNS :: ErrorCategory where "CategoryDNS = ''dns_error''"
definition CategoryTLS :: ErrorCategory where "CategoryTLS = ''tls_error''"
definition CategoryTimeout :: ErrorCategory where "CategoryTimeout = ''timeout''"
definition CategoryHTTP :: ErrorCategory where "CategoryHTTP = ''http_error''"
definition CategoryGRPCNotServing :: ErrorCategory where
  "CategoryGRPCNotServing = ''grpc_not_serving''"
definition CategoryGRPCError :: ErrorCategory where "CategoryGRPCError = ''grpc_error''"
definition CategoryConnectionRefused :: ErrorCategory where
  "CategoryConnectionRefused = ''connection_refused''"
definition CategoryAuth :: ErrorCategory where "CategoryAuth = ''authentication_error''"
definition CategoryUnhealthy :: ErrorCategory where "CategoryUnhealthy = ''unhealthy_service''"
definition CategoryUnknown :: ErrorCategory where "CategoryUnknown = ''unknown_error''"

lemmas category_defs =
  CategoryDNS_def CategoryTLS_def CategoryTimeout_def CategoryHTTP_def CategoryGRPCNotServing_def
  CategoryGRPCError_def CategoryConnectionRefused_def CategoryAuth_def CategoryUnhealthy_def
  CategoryUnknown_def

definition Hint :: "ErrorCategory \<Rightarrow> string" where
  "Hint c =
     (if c = CategoryDNS then
        ''Verify CoreDNS resolution, cluster domain suffixes, or Service name spelling''
      else if c = CategoryTLS then
        ''Check TLS certificate validity, SAN coverage, or CA trust store''
      else if c = CategoryTimeout then
        ''Target is slow to respond; check upstream latency, network policies, or resource limits''
      else if c = CategoryHTTP then
        ''Application responded with 4xx/5xx; check application logs and payload specs''
      else if c = CategoryGRPCNotServing then
        ''gRPC health check returned NOT_SERVING or service unknown; check application health endpoints and internal dependencies''
      else if c = CategoryGRPCError then
        ''gRPC call failed with RPC status error; check server logs, credentials, TLS configurations, and RPC status codes''
      else if c = CategoryConnectionRefused then
        ''Connection refused; check if the service is running and listening on the specified port''
      else if c = CategoryAuth then
        ''Authentication failed; check credentials, tokens, or permissions''
      else if c = CategoryUnhealthy then
        ''Service is unhealthy; check health checks, service status, and logs''
      else ''Unclassified network or protocol error; inspect underlying OS/socket errors'')"

text \<open>The list \<open>allCategories\<close> of metrics.go, in its order.\<close>

definition allCategories :: "ErrorCategory list" where
  "allCategories =
     [CategoryDNS, CategoryConnectionRefused, CategoryTLS, CategoryTimeout, CategoryHTTP,
      CategoryGRPCNotServing, CategoryGRPCError, CategoryUnhealthy, CategoryAuth, CategoryUnknown]"

subsection \<open>Go errors\<close>

text \<open>gRPC status codes the code distinguishes; the others by their number.\<close>

datatype codes = OK | DeadlineExceeded | Unavailable | Unauthenticated | PermissionDenied
  | NotFound | Unimplemented | OtherCode nat

text \<open>
  The dynamic types the classification can tell apart. \<open>CertificateInvalidVal\<close> is the
  struct \<open>x509.CertificateInvalidError\<close> (what crypto/x509 returns, e.g. for an expired
  certificate), \<open>CertificateInvalidPtr\<close> a pointer to one; likewise for
  \<open>tls.RecordHeaderError\<close>. \<open>NetTimeout\<close> is an error whose \<open>Is\<close> method equates it with
  \<open>context.DeadlineExceeded\<close>; \<open>OpError b\<close> is a \<open>*net.OpError\<close> whose \<open>Timeout()\<close> is \<open>b\<close>;
  \<open>StatusError\<close> has a \<open>GRPCStatus\<close> method.
\<close>

datatype err_type = CtxDeadlineExceeded | CtxCanceled | NetTimeout | StatusError codes
  | CertificateInvalidPtr | CertificateInvalidVal | UnknownAuthorityVal | HostnameVal
  | RecordHeaderVal | RecordHeaderPtr | DNSErrorPtr | OpErrorPtr bool | OtherError string

datatype go_error = GoError (dyn: err_type) (wrapped: "go_error list")

text \<open>\<open>errors.Is\<close> and \<open>errors.As\<close> with the test on one error of the tree as a function.\<close>

fun errors_Is :: "(err_type \<Rightarrow> bool) \<Rightarrow> go_error \<Rightarrow> bool" where
  "errors_Is p (GoError k es) = (p k \<or> list_ex (errors_Is p) es)"

fun first_some :: "'a option list \<Rightarrow> 'a option" where
  "first_some [] = None"
| "first_some (x # xs) = (case x of Some y \<Rightarrow> Some y | None \<Rightarrow> first_some xs)"

fun errors_As :: "(err_type \<Rightarrow> 'a option) \<Rightarrow> go_error \<Rightarrow> 'a option" where
  "errors_As f (GoError k es) =
     (case f k of Some x \<Rightarrow> Some x | None \<Rightarrow> first_some (map (errors_As f) es))"

definition is_deadline :: "err_type \<Rightarrow> bool" where
  "is_deadline k \<longleftrightarrow> k = CtxDeadlineExceeded \<or> k = NetTimeout"

text \<open>\<open>errors.As(err, &v)\<close> for a variable of a type without further content.\<close>

definition errors_As_type :: "err_type \<Rightarrow> go_error \<Rightarrow> bool" where
  "errors_As_type t e = errors_Is (\<lambda>k. k = t) e"

definition as_OpError :: "err_type \<Rightarrow> bool option" where
  "as_OpError k = (case k of OpErrorPtr b \<Rightarrow> Some b | _ \<Rightarrow> None)"

subsection \<open>MapToCategory\<close>

definition status_category :: "codes \<Rightarrow> ErrorCategory" where
  "status_category st =
     (case st of
        OK \<Rightarrow> []
      | DeadlineExceeded \<Rightarrow> CategoryTimeout
      | Unavailable \<Rightarrow> CategoryConnectionRefused
      | Unauthenticated \<Rightarrow> CategoryAuth
      | PermissionDenied \<Rightarrow> CategoryAuth
      | NotFound \<Rightarrow> CategoryGRPCNotServing
      | _ \<Rightarrow> CategoryGRPCError)"

definition MapToCategory ::
  "(go_error \<Rightarrow> codes option) \<Rightarrow> go_error option \<Rightarrow> int \<Rightarrow> ErrorCategory" where
  "MapToCategory FromError err statusCode =
     (case err of
        None \<Rightarrow> if statusCode \<ge> 400 then CategoryHTTP else []
      | Some e \<Rightarrow>
          if errors_Is is_deadline e then CategoryTimeout
          else (case FromError e of
             Some st \<Rightarrow> status_category st
           | None \<Rightarrow>
               if errors_As_type CertificateInvalidPtr e
                 \<or> errors_As_type UnknownAuthorityVal e
                 \<or> errors_As_type HostnameVal e
                 \<or> errors_As_type RecordHeaderVal e
                 \<or> errors_As_type RecordHeaderPtr e
               then CategoryTLS
               else if errors_As_type DNSErrorPtr e then CategoryDNS
               else (case errors_As as_OpError e of
                  Some timeout \<Rightarrow> if timeout then CategoryTimeout else CategoryConnectionRefused
                | None \<Rightarrow> CategoryUnknown)))"

subsection \<open>Lemmas\<close>

lemma first_some_None: "first_some xs = None \<longleftrightarrow> (\<forall>x \<in> set xs. x = None)"
  by (induction xs) (auto split: option.splits)

text \<open>The dynamic types in an error's tree.\<close>

fun err_types :: "go_error \<Rightarrow> err_type set" where
  "err_types (GoError k es) = insert k (\<Union>e \<in> set es. err_types e)"

lemma errors_Is_iff: "errors_Is p e \<longleftrightarrow> (\<exists>k \<in> err_types e. p k)"
  by (induction e) (auto simp: list_ex_iff)

lemma errors_As_OpError_None: "errors_As as_OpError e = None \<longleftrightarrow> (\<forall>b. OpErrorPtr b \<notin> err_types e)"
  by (induction e) (auto simp: as_OpError_def first_some_None split: err_type.splits)

lemma category_nonempty [simp]:
  "CategoryDNS \<noteq> []" "CategoryTLS \<noteq> []" "CategoryTimeout \<noteq> []" "CategoryHTTP \<noteq> []"
  "CategoryGRPCNotServing \<noteq> []" "CategoryGRPCError \<noteq> []" "CategoryConnectionRefused \<noteq> []"
  "CategoryAuth \<noteq> []" "CategoryUnhealthy \<noteq> []" "CategoryUnknown \<noteq> []"
  by (simp_all add: category_defs)

lemma category_listed [simp]:
  "CategoryDNS \<in> set allCategories" "CategoryTLS \<in> set allCategories"
  "CategoryTimeout \<in> set allCategories" "CategoryHTTP \<in> set allCategories"
  "CategoryGRPCNotServing \<in> set allCategories" "CategoryGRPCError \<in> set allCategories"
  "CategoryConnectionRefused \<in> set allCategories" "CategoryAuth \<in> set allCategories"
  "CategoryUnhealthy \<in> set allCategories" "CategoryUnknown \<in> set allCategories"
  by (simp_all add: allCategories_def)

lemma status_category_listed: "status_category c = [] \<or> status_category c \<in> set allCategories"
  by (cases c) (simp_all add: status_category_def)

lemma status_category_empty: "status_category c = [] \<longleftrightarrow> c = OK"
  by (cases c) (simp_all add: status_category_def)

lemma MapToCategory_listed: "MapToCategory F err sc = [] \<or> MapToCategory F err sc \<in> set allCategories"
  using status_category_listed by (auto simp: MapToCategory_def split: option.split)

text \<open>An error whose own type decides nothing is classified by what it wraps.\<close>

definition transparent :: "err_type \<Rightarrow> bool" where
  "transparent k \<longleftrightarrow> k = CtxCanceled \<or> k = CertificateInvalidVal \<or> (\<exists>s. k = OtherError s)"

lemma errors_As_wrap:
  "f k = None \<Longrightarrow> errors_As f (GoError k [e]) = errors_As f e"
  by (simp split: option.splits)

lemma transparent_simps:
  "transparent k \<Longrightarrow> \<not> is_deadline k"
  "transparent k \<Longrightarrow> as_OpError k = None"
  "\<not> transparent CertificateInvalidPtr" "\<not> transparent UnknownAuthorityVal"
  "\<not> transparent HostnameVal" "\<not> transparent RecordHeaderVal" "\<not> transparent RecordHeaderPtr"
  "\<not> transparent DNSErrorPtr"
  by (auto simp: transparent_def is_deadline_def as_OpError_def)

lemma errors_As_type_wrap:
  "transparent k \<Longrightarrow> \<not> transparent t \<Longrightarrow> errors_As_type t (GoError k [e]) = errors_As_type t e"
  by (auto simp: errors_As_type_def)

subsection \<open>Properties\<close>

text \<open>
  C32. No failure is classified as success, and no success as failure: with an error, the
  category is empty only for a gRPC status OK (that is not a deadline); without one, only
  for a status code below 400. Every other result is one of the ten registered categories.
\<close>

theorem category_total:
  "MapToCategory FromError err statusCode \<in> insert [] (set allCategories) \<and>
   (MapToCategory FromError err statusCode = [] \<longleftrightarrow>
      (case err of None \<Rightarrow> statusCode < 400
       | Some e \<Rightarrow> \<not> errors_Is is_deadline e \<and> FromError e = Some OK))"
  using MapToCategory_listed [of FromError err statusCode]
  by (auto simp: MapToCategory_def status_category_empty split: option.splits)

text \<open>
  Wrapping does not change the classification: an error that only adds context around
  another (as \<open>fmt.Errorf\<close> with \<open>%w\<close> or \<open>*url.Error\<close> does) has the category of the wrapped
  one, given that \<open>FromError\<close> looks through wrappers as documented.
\<close>

lemma category_unwraps:
  assumes "transparent k" "FromError (GoError k [e]) = FromError e"
  shows "MapToCategory FromError (Some (GoError k [e])) sc = MapToCategory FromError (Some e) sc"
proof -
  have "errors_Is is_deadline (GoError k [e]) = errors_Is is_deadline e"
    using transparent_simps(1) [OF assms(1)] by simp
  moreover have "errors_As as_OpError (GoError k [e]) = errors_As as_OpError e"
    using transparent_simps(2) [OF assms(1)] by (rule errors_As_wrap)
  ultimately show ?thesis
    using assms
    by (simp add: MapToCategory_def errors_As_type_wrap transparent_simps
        del: errors_As.simps errors_Is.simps cong: option.case_cong)
qed

text \<open>A \<open>FromError\<close> that finds the first status in the tree, for the witnesses.\<close>

definition ex_FromError :: "go_error \<Rightarrow> codes option" where
  "ex_FromError = errors_As (\<lambda>k. case k of StatusError c \<Rightarrow> Some c | _ \<Rightarrow> None)"

lemma category_unwraps_witness:
  "MapToCategory ex_FromError
     (Some (GoError (OtherError ''Get'') [GoError (OpErrorPtr False) [GoError DNSErrorPtr []]])) 0
   = CategoryDNS"
  using category_unwraps [of "OtherError ''Get''" ex_FromError
      "GoError (OpErrorPtr False) [GoError DNSErrorPtr []]" 0]
  by (simp add: ex_FromError_def transparent_def MapToCategory_def is_deadline_def errors_As_type_def)

text \<open>
  An invalid certificate is not a TLS error: crypto/x509 returns
  \<open>CertificateInvalidError\<close> (expired, not yet valid, wrong usage, ...) by value, while the
  code asks \<open>errors.As\<close> for a pointer. Wrapped in any context that decides nothing, such a
  failure is \<open>unknown_error\<close>, so the TLS handshake alert does not see it; the pointer the
  code looks for would be \<open>tls_error\<close>.
\<close>

lemma invalid_certificate_is_unknown:
  assumes "\<forall>k \<in> err_types e. transparent k" "CertificateInvalidVal \<in> err_types e" "FromError e = None"
  shows "MapToCategory FromError (Some e) 0 = CategoryUnknown \<and>
    MapToCategory (\<lambda>_. None) (Some (GoError CertificateInvalidPtr [])) 0 = CategoryTLS"
proof -
  have "\<not> errors_Is is_deadline e"
    using assms(1) transparent_simps(1) by (auto simp: errors_Is_iff)
  moreover have "errors_As as_OpError e = None"
    using assms(1) by (auto simp: errors_As_OpError_None transparent_def)
  moreover have "\<not> errors_As_type t e" if "\<not> transparent t" for t
    using that assms(1) by (auto simp: errors_Is_iff errors_As_type_def)
  ultimately show ?thesis
    using assms(3)
    by (simp add: MapToCategory_def transparent_simps)
      (simp add: errors_As_type_def is_deadline_def)
qed

lemma invalid_certificate_is_unknown_witness:
  "MapToCategory ex_FromError (Some (GoError (OtherError ''tls: failed to verify certificate'')
      [GoError CertificateInvalidVal []])) 0 = ''unknown_error''"
  using invalid_certificate_is_unknown [of "GoError (OtherError ''tls: failed to verify certificate'')
      [GoError CertificateInvalidVal []]" ex_FromError]
  by (simp add: transparent_def ex_FromError_def CategoryUnknown_def)

text \<open>
  The hint metric has one series per category: the ten categories are different
  strings and their hints are nonempty and pairwise different.
\<close>

lemma hints_distinct:
  "distinct allCategories \<and> length allCategories = 10 \<and> [] \<notin> set allCategories \<and>
   distinct (map Hint allCategories) \<and> [] \<notin> set (map Hint allCategories)"
  by (simp add: allCategories_def Hint_def category_defs)

end
