(* ===== verification/Watchers.thy ===== *)
theory Watchers
  imports Informer Errors
begin

section \<open>The goroutines that start the informers (informer.go, statictargets.go, main.go)\<close>

text \<open>
  What \<open>KubeWatcher.Start\<close> and \<open>WatchStaticTargets\<close> return, and what the error group of main
  makes of it. The library answers are arguments: the error of \<open>AddEventHandler\<close>, whether the
  caches synchronised, and the error of the context, which \<open>WaitForCacheSync\<close> waits for
  otherwise. Main runs the two, and \<open>WatchPeers\<close>, as tasks of the group. The group derives
  the context of all callbacks: it is cancelled with the program's context, or by the first
  task that returns an error.
\<close>

definition Errorf :: "string \<Rightarrow> go_error \<Rightarrow> go_error" where
  "Errorf msg err = GoError (OtherError msg) [err]"

definition Start :: "go_error option \<Rightarrow> bool \<Rightarrow> go_error \<Rightarrow> go_error option" where
  "Start addHandler synced ctxErr =
     (case addHandler of
        Some err \<Rightarrow> Some (Errorf ''failed to add event handler to EndpointSlice informer'' err)
      | None \<Rightarrow>
          if \<not> synced then Some (Errorf ''failed to sync informer caches'' ctxErr) else None)"

definition WatchStaticTargets :: "go_error option \<Rightarrow> bool \<Rightarrow> go_error \<Rightarrow> go_error option" where
  "WatchStaticTargets addHandler synced ctxErr =
     (case addHandler of
        Some err \<Rightarrow> Some (Errorf ''failed to register StaticTarget event handlers'' err)
      | None \<Rightarrow>
          if \<not> synced then Some (Errorf ''failed to sync StaticTarget informer cache'' ctxErr) else None)"

subsection \<open>The tasks of the error group\<close>

text \<open>
  Each task registers its handlers, starts its informers, and waits for the caches (the two
  watches of targets then return). \<open>WatchPeers\<close> registers its callback without looking at the
  error, processes the peers once itself after the sync (\<open>Updating i\<close>: it is sending the events
  of outbox \<open>i\<close>), blocks on its context, and returns nothing. A task's result is what the
  closure in main gives to the group: a cancellation is not an error.
\<close>

datatype task_name = Peers | Statics | Slices

datatype task = Starting | Syncing | Updating nat | Blocking | Returned "go_error option"

definition group_task :: "go_error option \<Rightarrow> go_error option" where
  "group_task err =
     (case err of
        Some e \<Rightarrow> if errors_Is (\<lambda>k. k = CtxCanceled) e then None else Some e
      | None \<Rightarrow> None)"

text \<open>The contexts have no deadline, so the error of a context that is done is \<open>Canceled\<close>.\<close>

fun task_result :: "task_name \<Rightarrow> go_error option \<Rightarrow> bool \<Rightarrow> go_error option" where
  "task_result Peers addHandler synced = None"
| "task_result Statics addHandler synced =
     group_task (WatchStaticTargets addHandler synced (GoError CtxCanceled []))"
| "task_result Slices addHandler synced =
     group_task (Start addHandler synced (GoError CtxCanceled []))"

inductive task_step :: "bool \<Rightarrow> task_name \<Rightarrow> task \<Rightarrow> task \<Rightarrow> bool" for ctx_done k where
  t_register: "task_step ctx_done k Starting Syncing"
| t_fail: "k \<noteq> Peers \<Longrightarrow>
    task_step ctx_done k Starting (Returned (task_result k (Some err) synced))"
| t_synced: "k \<noteq> Peers \<Longrightarrow> task_step ctx_done k Syncing (Returned (task_result k None True))"
| t_cancelled: "ctx_done \<Longrightarrow> task_step ctx_done k Syncing (Returned (task_result k None False))"
| t_unblock: "ctx_done \<Longrightarrow> task_step ctx_done k Blocking (Returned (task_result k None True))"

inductive_cases task_stepE: "task_step ctx_done k t t'"

text \<open>The group's context: done with the program's, or once a task returned an error.\<close>

definition failed :: "task \<Rightarrow> bool" where
  "failed t \<longleftrightarrow> (case t of Returned (Some e) \<Rightarrow> True | _ \<Rightarrow> False)"

definition group_done :: "bool \<Rightarrow> (task_name \<Rightarrow> task) \<Rightarrow> bool" where
  "group_done ctx_done tasks \<longleftrightarrow>
     ctx_done \<or> failed (tasks Peers) \<or> failed (tasks Statics) \<or> failed (tasks Slices)"

text \<open>\<open>informerGroup.Wait\<close> passes when every task has returned.\<close>

definition returned :: "task \<Rightarrow> bool" where
  "returned t \<longleftrightarrow> (case t of Returned res \<Rightarrow> True | _ \<Rightarrow> False)"

definition all_returned :: "(task_name \<Rightarrow> task) \<Rightarrow> bool" where
  "all_returned tasks \<longleftrightarrow> returned (tasks Peers) \<and> returned (tasks Statics) \<and> returned (tasks Slices)"

text \<open>Callbacks of a task come once its handlers are registered; its return does not stop them.\<close>

definition registered :: "task \<Rightarrow> bool" where
  "registered t \<longleftrightarrow> t \<noteq> Starting \<and> \<not> failed t"

fun informer_task :: "informer_event \<Rightarrow> task_name" where
  "informer_task (SliceAdded svcLister obj) = Slices"
| "informer_task (SliceUpdated svcLister old new) = Slices"
| "informer_task (SliceDeleted obj) = Slices"
| "informer_task (PeersChanged store order) = Peers"
| "informer_task (CRDAdded obj) = Statics"
| "informer_task (CRDUpdated old new) = Statics"
| "informer_task (CRDDeleted obj) = Statics"

text \<open>
  A shutdown before the caches have synchronised is not an error: the only failure of a task
  is a handler that cannot be registered (client-go: the informer was stopped before).
\<close>

lemma Errorf_Is: "p (OtherError msg) = False \<Longrightarrow> errors_Is p (Errorf msg err) = errors_Is p err"
  by (simp add: Errorf_def)

lemma task_result_registered [simp]: "task_result k None synced = None"
  by (cases k) (simp_all add: group_task_def WatchStaticTargets_def Start_def Errorf_def)

lemma task_result_error:
  "k \<noteq> Peers \<Longrightarrow> \<not> errors_Is (\<lambda>k. k = CtxCanceled) err \<Longrightarrow> \<exists>e. task_result k (Some err) synced = Some e"
  by (cases k) (simp_all add: group_task_def WatchStaticTargets_def Start_def Errorf_Is)

lemma failed_step: "task_step ctx_done k t t' \<Longrightarrow> failed t \<Longrightarrow> failed t'"
  by (auto elim: task_stepE simp: failed_def)

lemma group_done_ctx [simp]: "group_done True tasks"
  by (simp add: group_done_def)

lemma group_done_none [simp]: "(\<And>k. \<not> failed (tasks k)) \<Longrightarrow> group_done b tasks = b"
  by (simp add: group_done_def)

lemma failed_simps [simp]:
  "\<not> failed Starting" "\<not> failed Syncing" "\<not> failed (Updating i)" "\<not> failed Blocking"
  "\<not> failed (Returned None)" "failed (Returned (Some e))"
  by (simp_all add: failed_def)

lemma returned_simps [simp]:
  "\<not> returned Starting" "\<not> returned Syncing" "\<not> returned (Updating i)" "\<not> returned Blocking"
  "returned (Returned res)"
  by (simp_all add: returned_def)

lemma all_returned_iff: "all_returned tasks \<longleftrightarrow> (\<forall>k. returned (tasks k))"
  unfolding all_returned_def by (metis task_name.exhaust)

lemma task_step_running: "task_step ctx_done k t t' \<Longrightarrow> \<not> returned t"
  by (auto elim: task_stepE)

lemma registered_simps [simp]:
  "\<not> registered Starting" "registered Syncing" "registered (Returned None)"
  by (simp_all add: registered_def)

end
