(* ===== verification/Metrics.thy ===== *)
theory Metrics
  imports Complex_Main Errors Types
begin

section \<open>Prometheus metrics (pkg/prober/metrics.go)\<close>

text \<open>
  The metric vectors live in the library client_golang, which is not part of the
  repository. The model records the calls the program makes on them, in order; a component
  that reports metrics returns or extends such a log. \<open>live\<close> reads a log by what the
  library documents: \<open>WithLabelValues\<close> creates the series for the given label values if it
  does not exist, \<open>DeleteLabelValues\<close> removes it, and a metric without labels is there from its
  registration on. Values are exact (\<open>real\<close>); the rounding of
  \<open>float64\<close> is not modelled.
\<close>

datatype metric_vec = LatencyHistogram | TrafficCounter | ErrorCounter | SaturationGauge
  | MaxWorkersGauge | CategoryHintInfo | TLSCertExpiryGauge | DroppedProbesTotal

definition targetLabel :: string where
  "targetLabel = ''target''"

text \<open>Name and label names of each vector, as declared.\<close>

fun vec_name :: "metric_vec \<Rightarrow> string" where
  "vec_name LatencyHistogram = ''kube_prober_latency_seconds''"
| "vec_name TrafficCounter = ''kube_prober_traffic_total''"
| "vec_name ErrorCounter = ''kube_prober_errors_total''"
| "vec_name SaturationGauge = ''kube_prober_saturation_active_workers''"
| "vec_name MaxWorkersGauge = ''kube_prober_saturation_max_workers''"
| "vec_name CategoryHintInfo = ''kube_prober_error_category_hint_info''"
| "vec_name TLSCertExpiryGauge = ''kube_prober_tls_cert_expiry_days''"
| "vec_name DroppedProbesTotal = ''kube_prober_dropped_probes_total''"

fun vec_labels :: "metric_vec \<Rightarrow> string list" where
  "vec_labels LatencyHistogram = [targetLabel]"
| "vec_labels TrafficCounter = [targetLabel]"
| "vec_labels ErrorCounter = [targetLabel, ''category'']"
| "vec_labels SaturationGauge = []"
| "vec_labels MaxWorkersGauge = []"
| "vec_labels CategoryHintInfo = [''category'', ''hint'']"
| "vec_labels TLSCertExpiryGauge = [targetLabel]"
| "vec_labels DroppedProbesTotal = [targetLabel]"

type_synonym series = "metric_vec \<times> string list"

text \<open>
  A call on one series (\<open>Inc\<close>, \<open>Dec\<close>, \<open>Observe\<close>, \<open>Set\<close>), the deletion of one, and the
  registration of a vector.
\<close>

datatype metric_call =
    MInc series
  | MDec series
  | MObserve series real
  | MSet series real
  | MDelete series
  | MRegister metric_vec

definition RegisterMetrics :: "metric_call list" where
  "RegisterMetrics =
     map MRegister [LatencyHistogram, TrafficCounter, ErrorCounter, SaturationGauge,
       MaxWorkersGauge, CategoryHintInfo, TLSCertExpiryGauge, DroppedProbesTotal] @
     map (\<lambda>cat. MSet (CategoryHintInfo, [cat, Hint cat]) 1) allCategories"

definition DeleteTargetMetrics :: "address \<Rightarrow> metric_call list" where
  "DeleteTargetMetrics target =
     [MDelete (LatencyHistogram, [target]),
      MDelete (TrafficCounter, [target]),
      MDelete (TLSCertExpiryGauge, [target]),
      MDelete (DroppedProbesTotal, [target])] @
     map (\<lambda>cat. MDelete (ErrorCounter, [target, cat])) allCategories"

subsection \<open>Reading a log\<close>

fun live :: "series set \<Rightarrow> metric_call list \<Rightarrow> series set" where
  "live S [] = S"
| "live S (MInc s # cs) = live (insert s S) cs"
| "live S (MDec s # cs) = live (insert s S) cs"
| "live S (MObserve s v # cs) = live (insert s S) cs"
| "live S (MSet s v # cs) = live (insert s S) cs"
| "live S (MDelete s # cs) = live (S - {s}) cs"
| "live S (MRegister v # cs) = live (if vec_labels v = [] then insert (v, []) S else S) cs"

fun call_ok :: "metric_call \<Rightarrow> bool" where
  "call_ok (MInc (v, ls)) = (length ls = length (vec_labels v))"
| "call_ok (MDec (v, ls)) = (length ls = length (vec_labels v))"
| "call_ok (MObserve (v, ls) x) = (length ls = length (vec_labels v))"
| "call_ok (MSet (v, ls) x) = (length ls = length (vec_labels v))"
| "call_ok (MDelete (v, ls)) = (length ls = length (vec_labels v))"
| "call_ok (MRegister v) = True"

text \<open>The series that carry a target's address.\<close>

definition target_series :: "address \<Rightarrow> series set" where
  "target_series t =
     {(LatencyHistogram, [t]), (TrafficCounter, [t]), (TLSCertExpiryGauge, [t]),
      (DroppedProbesTotal, [t])} \<union> {(ErrorCounter, [t, c]) | c. c \<in> set allCategories}"

text \<open>The series that carry no address: the gauges of the pool and the hints.\<close>

definition global_series :: "series set" where
  "global_series =
     {(SaturationGauge, []), (MaxWorkersGauge, [])} \<union>
     {(CategoryHintInfo, [c, Hint c]) | c. c \<in> set allCategories}"

text \<open>
  The type of a call, for the addresses \<open>A\<close> of targets: as many label values as its vector has
  labels, and a series it can create belongs to no target or is one that \<open>DeleteTargetMetrics\<close>
  deletes with a target of \<open>A\<close>.
\<close>

fun created :: "metric_call \<Rightarrow> series option" where
  "created (MInc s) = Some s"
| "created (MDec s) = Some s"
| "created (MObserve s v) = Some s"
| "created (MSet s v) = Some s"
| "created (MDelete s) = None"
| "created (MRegister v) = None"

definition known_series :: "address set \<Rightarrow> series set" where
  "known_series A = global_series \<union> (\<Union>t \<in> A. target_series t)"

definition typed_call :: "address set \<Rightarrow> metric_call \<Rightarrow> bool" where
  "typed_call A c \<longleftrightarrow>
     call_ok c \<and> (case created c of Some s \<Rightarrow> s \<in> known_series A | None \<Rightarrow> True)"

abbreviation typed_log :: "address set \<Rightarrow> metric_call list \<Rightarrow> bool" where
  "typed_log A \<equiv> list_all (typed_call A)"

lemma known_seriesI:
  "s \<in> global_series \<Longrightarrow> s \<in> known_series A" "s \<in> target_series t \<Longrightarrow> t \<in> A \<Longrightarrow> s \<in> known_series A"
  by (auto simp: known_series_def)

lemma known_series_mono: "A \<subseteq> B \<Longrightarrow> known_series A \<subseteq> known_series B"
  by (auto simp: known_series_def)

lemma typed_log_mono:
  assumes "typed_log A cs" "A \<subseteq> B"
  shows "typed_log B cs"
proof -
  have "typed_call B c" if "typed_call A c" for c
    using that known_series_mono [OF assms(2)] by (auto simp: typed_call_def split: option.splits)
  then show ?thesis using assms(1) by (auto simp: list_all_iff)
qed

lemma live_typed: "typed_log A cs \<Longrightarrow> S \<subseteq> known_series A \<Longrightarrow> live S cs \<subseteq> known_series A"
proof (induction S cs rule: live.induct)
  case (7 S v cs)
  have "(if vec_labels v = [] then insert (v, []) S else S) \<subseteq> known_series A"
    using 7(3) by (cases v) (simp_all add: global_series_def known_series_def)
  with 7(1,2) show ?case by simp
qed (auto simp: typed_call_def)

lemma typed_DeleteTargetMetrics [simp]: "typed_log A (DeleteTargetMetrics t)"
  by (auto simp: DeleteTargetMetrics_def list_all_iff typed_call_def)

lemma typed_RegisterMetrics [simp]: "typed_log A RegisterMetrics"
  by (auto simp: RegisterMetrics_def list_all_iff typed_call_def global_series_def
      intro!: known_seriesI(1))

lemma live_append [simp]: "live S (xs @ ys) = live (live S xs) ys"
  by (induction S xs rule: live.induct) auto

lemma live_deletes: "live S (map MDelete ss) = S - set ss"
  by (induction ss arbitrary: S) auto

lemma live_DeleteTargetMetrics: "live S (DeleteTargetMetrics t) = S - target_series t"
proof -
  have "DeleteTargetMetrics t = map MDelete
      ([(LatencyHistogram, [t]), (TrafficCounter, [t]), (TLSCertExpiryGauge, [t]),
        (DroppedProbesTotal, [t])] @ map (\<lambda>c. (ErrorCounter, [t, c])) allCategories)"
    by (simp add: DeleteTargetMetrics_def)
  then have "live S (DeleteTargetMetrics t) = S - set
      ([(LatencyHistogram, [t]), (TrafficCounter, [t]), (TLSCertExpiryGauge, [t]),
        (DroppedProbesTotal, [t])] @ map (\<lambda>c. (ErrorCounter, [t, c])) allCategories)"
    by (simp only: live_deletes)
  also have "\<dots> = S - target_series t"
    by (rule arg_cong [where f = "\<lambda>X. S - X"]) (auto simp: target_series_def)
  finally show ?thesis .
qed

lemma target_series_disjoint: "t \<noteq> u \<Longrightarrow> target_series t \<inter> target_series u = {}"
  by (auto simp: target_series_def)

lemma known_series_delete: "S \<subseteq> known_series A \<Longrightarrow> S - target_series t \<subseteq> known_series (A - {t})"
  by (auto simp: known_series_def)

subsection \<open>Purging as an interface\<close>

text \<open>
  What the metrics cleaner needs of its delete callback: it removes a target and leaves
  the others alone.
\<close>

locale purge =
  fixes deleteFn :: "address \<Rightarrow> 'm \<Rightarrow> 'm"
    and present :: "'m \<Rightarrow> address \<Rightarrow> bool"
  assumes purge_target: "\<not> present (deleteFn t m) t"
    and purge_others: "u \<noteq> t \<Longrightarrow> present (deleteFn t m) u = present m u"
begin

lemma purge_fold: "present (fold deleteFn ts m) u \<longleftrightarrow> present m u \<and> u \<notin> set ts"
proof (induction ts arbitrary: m)
  case Nil
  show ?case by simp
next
  case (Cons t ts)
  show ?case
    using Cons.IH [of "deleteFn t m"] purge_target [of t m] purge_others [of u t m] by auto
qed

end

text \<open>The callback main.go passes: on the live series, it deletes by \<open>DeleteTargetMetrics\<close>.\<close>

definition delete_live :: "address \<Rightarrow> series set \<Rightarrow> series set" where
  "delete_live t S = live S (DeleteTargetMetrics t)"

definition target_live :: "series set \<Rightarrow> address \<Rightarrow> bool" where
  "target_live S t \<longleftrightarrow> S \<inter> target_series t \<noteq> {}"

interpretation metrics_purge: purge delete_live target_live
proof
  show "\<not> target_live (delete_live t S) t" for t S
    by (auto simp: target_live_def delete_live_def live_DeleteTargetMetrics)
  show "target_live (delete_live t S) u = target_live S u" if "u \<noteq> t" for t u S
    using target_series_disjoint [OF that]
    by (auto simp: target_live_def delete_live_def live_DeleteTargetMetrics)
qed

subsection \<open>Properties\<close>

text \<open>
  Startup registers each of the eight vectors once under pairwise different names,
  gives every category exactly one hint series, and every call has as many label values
  as its vector has labels (the library panics otherwise).
\<close>

lemma register_metrics_complete:
  "(\<forall>v. MRegister v \<in> set RegisterMetrics) \<and> distinct RegisterMetrics \<and>
   distinct (map vec_name [LatencyHistogram, TrafficCounter, ErrorCounter, SaturationGauge,
       MaxWorkersGauge, CategoryHintInfo, TLSCertExpiryGauge, DroppedProbesTotal]) \<and>
   live {} RegisterMetrics = global_series \<and>
   list_all call_ok RegisterMetrics"
proof -
  have "MRegister v \<in> set RegisterMetrics" for v
    by (cases v) (simp_all add: RegisterMetrics_def)
  moreover have "distinct RegisterMetrics"
    by (simp add: RegisterMetrics_def allCategories_def category_defs)
  moreover have "live S (map (\<lambda>c. MSet (CategoryHintInfo, [c, Hint c]) 1) cs)
      = S \<union> {(CategoryHintInfo, [c, Hint c]) | c. c \<in> set cs}" for S cs
    by (induction cs arbitrary: S) auto
  then have "live {} RegisterMetrics = global_series"
    by (auto simp: RegisterMetrics_def global_series_def)
  moreover have "list_all call_ok RegisterMetrics"
    by (simp add: RegisterMetrics_def list_all_iff)
  ultimately show ?thesis by simp
qed

text \<open>
  Deleting a target's metrics leaves none of its series (latency, traffic, expiry,
  dropped probes and errors of every registered category), removes nothing else, and every
  deletion names all labels of its vector. An error series of an unregistered category
  would survive.
\<close>

lemma delete_target_metrics_exact:
  "live S (DeleteTargetMetrics t) = S - target_series t \<and>
   list_all call_ok (DeleteTargetMetrics t) \<and>
   ((ErrorCounter, [t, c]) \<in> live (insert (ErrorCounter, [t, c]) S) (DeleteTargetMetrics t)
      \<longleftrightarrow> c \<notin> set allCategories)"
proof -
  have "list_all call_ok (DeleteTargetMetrics t)"
    by (auto simp: DeleteTargetMetrics_def list_all_iff)
  then show ?thesis
    unfolding live_DeleteTargetMetrics by (auto simp: target_series_def)
qed

end
