(* ===== verification/Cleaner.thy ===== *)
theory Cleaner
  imports Metrics
begin

section \<open>Deferred metric deletion (pkg/server/metrics_cleaner.go)\<close>

text \<open>
  A removed target keeps its metrics until Prometheus has scraped them once more. The
  cleaner holds a countdown per target; a scrape, after serving, collects the targets
  whose countdown is over (under the lock) and then calls the delete callback for each
  (outside the lock). The callback is the argument \<open>deleteFn\<close>, over a store of any type.
\<close>

record MetricsCleaner =
  pendingDeletes :: "address \<rightharpoonup> int"

definition NewMetricsCleaner :: MetricsCleaner where
  "NewMetricsCleaner = \<lparr>pendingDeletes = Map.empty\<rparr>"

definition MarkForDeletion :: "address \<Rightarrow> MetricsCleaner \<Rightarrow> MetricsCleaner" where
  "MarkForDeletion target c = c\<lparr>pendingDeletes := (pendingDeletes c)(target \<mapsto> 1)\<rparr>"

definition AbortDeletion :: "address \<Rightarrow> MetricsCleaner \<Rightarrow> MetricsCleaner" where
  "AbortDeletion target c = c\<lparr>pendingDeletes := go_delete (pendingDeletes c) target\<rparr>"

text \<open>
  The critical section of the handler, for the order in which \<open>range\<close> visits the map,
  and the whole handler after the metrics were served.
\<close>

definition collect_step ::
  "address \<Rightarrow> MetricsCleaner \<times> address list \<Rightarrow> MetricsCleaner \<times> address list" where
  "collect_step target st =
     (case st of (c, toDelete) \<Rightarrow>
       (case pendingDeletes c target of
          None \<Rightarrow> (c, toDelete)
        | Some remaining \<Rightarrow>
            if remaining \<le> 1
            then (c\<lparr>pendingDeletes := go_delete (pendingDeletes c) target\<rparr>, toDelete @ [target])
            else (c\<lparr>pendingDeletes := (pendingDeletes c)(target \<mapsto> remaining - 1)\<rparr>, toDelete)))"

definition collect_expired :: "address list \<Rightarrow> MetricsCleaner \<Rightarrow> MetricsCleaner \<times> address list" where
  "collect_expired order c = fold collect_step order (c, [])"

definition Handler ::
  "(address \<Rightarrow> 'm \<Rightarrow> 'm) \<Rightarrow> address list \<Rightarrow> MetricsCleaner \<times> 'm \<Rightarrow> MetricsCleaner \<times> 'm" where
  "Handler deleteFn order st =
     (let (c', toDelete) = collect_expired order (fst st) in (c', fold deleteFn toDelete (snd st)))"

subsection \<open>Lemmas\<close>

lemma collect_fold:
  "distinct order \<Longrightarrow> fold collect_step order (c, ts) =
    (c\<lparr>pendingDeletes := (\<lambda>a. if a \<in> set order
        then (case pendingDeletes c a of Some n \<Rightarrow> if n \<le> 1 then None else Some (n - 1) | None \<Rightarrow> None)
        else pendingDeletes c a)\<rparr>,
     ts @ filter (\<lambda>a. case pendingDeletes c a of Some n \<Rightarrow> n \<le> 1 | None \<Rightarrow> False) order)"
proof (induction order arbitrary: c ts)
  case Nil
  then show ?case by simp
next
  case (Cons a order)
  define c1 where "c1 = fst (collect_step a (c, ts))"
  have step: "collect_step a (c, ts) = (c1, ts @ filter (\<lambda>a. case pendingDeletes c a of Some n \<Rightarrow> n \<le> 1 | None \<Rightarrow> False) [a])"
    by (auto simp: c1_def collect_step_def split: option.splits)
  have same: "pendingDeletes c1 b = pendingDeletes c b" if "b \<noteq> a" for b
    using that by (auto simp: c1_def collect_step_def split: option.splits)
  have rest: "pendingDeletes c1 b = pendingDeletes c b" if "b \<in> set order" for b
    using that Cons.prems by (intro same) auto
  have at: "pendingDeletes c1 a = (case pendingDeletes c a of Some n \<Rightarrow> if n \<le> 1 then None else Some (n - 1) | None \<Rightarrow> None)"
    by (auto simp: c1_def collect_step_def split: option.splits)
  have filt: "filter (\<lambda>b. case pendingDeletes c1 b of Some n \<Rightarrow> n \<le> 1 | None \<Rightarrow> False) order
      = filter (\<lambda>b. case pendingDeletes c b of Some n \<Rightarrow> n \<le> 1 | None \<Rightarrow> False) order"
    by (rule filter_cong) (simp_all add: rest)
  show ?case
    using Cons.IH [of c1] Cons.prems
    by (auto simp: step filt same rest at fun_eq_iff intro!: MetricsCleaner.equality)
qed

lemma collect_expired_eq:
  assumes "range_order order (pendingDeletes c)"
  shows "collect_expired order c =
    (c\<lparr>pendingDeletes := (\<lambda>a. case pendingDeletes c a of
          Some n \<Rightarrow> if n \<le> 1 then None else Some (n - 1) | None \<Rightarrow> None)\<rparr>,
     filter (\<lambda>a. case pendingDeletes c a of Some n \<Rightarrow> n \<le> 1 | None \<Rightarrow> False) order)"
  using assms
  by (auto simp: collect_expired_def range_order_def collect_fold fun_eq_iff domIff
      split: option.splits intro!: MetricsCleaner.equality)

text \<open>
  With the callback main.go uses: what is live after a scrape, for any purge.
\<close>

context purge
begin

lemma handler_present:
  assumes "range_order order (pendingDeletes c)"
  shows "present (snd (Handler deleteFn order (c, m))) t \<longleftrightarrow>
    present m t \<and> (case pendingDeletes c t of Some n \<Rightarrow> 1 < n | None \<Rightarrow> True)"
  using assms
  by (auto simp: Handler_def collect_expired_eq purge_fold range_order_def split: option.splits)

end

subsection \<open>Properties\<close>

text \<open>
  A scrape counts every pending target down once: those at their last scrape are
  purged, leave the pending map and lose all their series, the others keep series and one
  scrape less, and targets that are not pending are untouched.
\<close>

lemma scrape_purges_expired:
  assumes "range_order order (pendingDeletes c)"
  shows "pendingDeletes (fst (Handler delete_live order (c, S))) t =
      (case pendingDeletes c t of None \<Rightarrow> None | Some n \<Rightarrow> if n \<le> 1 then None else Some (n - 1)) \<and>
    (target_live (snd (Handler delete_live order (c, S))) t \<longleftrightarrow>
      target_live S t \<and> (case pendingDeletes c t of Some n \<Rightarrow> 1 < n | None \<Rightarrow> True))"
  using metrics_purge.handler_present [OF assms, of S t]
  by (auto simp: Handler_def collect_expired_eq [OF assms] split: option.split)

lemma scrape_purges_expired_witness:
  "\<not> target_live (snd (Handler delete_live [''a''] (MarkForDeletion ''a'' NewMetricsCleaner,
      {(TrafficCounter, [''a'']), (TrafficCounter, [''b''])}))) ''a'' \<and>
   target_live (snd (Handler delete_live [''a''] (MarkForDeletion ''a'' NewMetricsCleaner,
      {(TrafficCounter, [''a'']), (TrafficCounter, [''b''])}))) ''b''"
proof -
  have "range_order [''a''] (pendingDeletes (MarkForDeletion ''a'' NewMetricsCleaner))"
    by (simp add: range_order_def MarkForDeletion_def NewMetricsCleaner_def)
  from scrape_purges_expired [OF this, of "{(TrafficCounter, [''a'']), (TrafficCounter, [''b''])}"]
  show ?thesis
    by (simp add: MarkForDeletion_def NewMetricsCleaner_def target_live_def target_series_def)
qed

text \<open>
  Abort: a target marked and then added again before the next scrape keeps its series
  through that scrape, and so does every target never marked.
\<close>

lemma abort_keeps_metrics:
  assumes "range_order order (pendingDeletes (AbortDeletion t (MarkForDeletion t c)))"
  shows "target_live (snd (Handler delete_live order (AbortDeletion t (MarkForDeletion t c), S))) t
    = target_live S t"
  using metrics_purge.handler_present [OF assms, of S t] by (simp add: AbortDeletion_def)

lemma abort_keeps_metrics_witness:
  "target_live (snd (Handler delete_live [] (AbortDeletion ''a'' (MarkForDeletion ''a'' NewMetricsCleaner),
      {(TrafficCounter, [''a''])}))) ''a''"
  using abort_keeps_metrics [of "[]" "''a''" NewMetricsCleaner "{(TrafficCounter, [''a''])}"]
  by (simp add: range_order_def AbortDeletion_def MarkForDeletion_def NewMetricsCleaner_def
      target_live_def target_series_def)

end
