(* ===== verification/EventLoop.thy ===== *)
theory EventLoop
  imports Cleaner
begin

section \<open>The event loop of main (main.go, lines 145 to 208)\<close>

text \<open>
  The goroutine that turns registry events into running schedulers. A scheduler goroutine
  is an entry of the list \<open>schedulers\<close>, in the order of the \<open>go\<close> statements: its target and
  whether its context has been cancelled. A cancel function is the position of the entry it
  cancels, so \<open>activeSchedulers\<close> maps an address to a position. Handling an event touches
  this state and the metrics cleaner; logging is left out.
\<close>

record Scheduler =
  sched_target :: Target
  cancelled :: bool

record Loop =
  activeSchedulers :: "address \<rightharpoonup> nat"
  schedulers :: "Scheduler list"
  cleaner :: MetricsCleaner

definition new_Loop :: Loop where
  "new_Loop = \<lparr>activeSchedulers = Map.empty, schedulers = [], cleaner = NewMetricsCleaner\<rparr>"

definition spawn :: "Target \<Rightarrow> Loop \<Rightarrow> Loop" where
  "spawn t st =
     st\<lparr>activeSchedulers := (activeSchedulers st)(Address t \<mapsto> length (schedulers st)),
        schedulers := schedulers st @ [\<lparr>sched_target = t, cancelled = False\<rparr>]\<rparr>"

definition cancelFunc :: "nat \<Rightarrow> Loop \<Rightarrow> Loop" where
  "cancelFunc i st =
     st\<lparr>schedulers := (schedulers st)[i := (schedulers st ! i)\<lparr>cancelled := True\<rparr>]\<rparr>"

definition handle_event :: "TargetEvent \<Rightarrow> Loop \<Rightarrow> Loop" where
  "handle_event evt st =
     (if IsAdded evt
      then
        (let st = st\<lparr>cleaner := AbortDeletion (evt_address evt) (cleaner st)\<rparr> in
         case activeSchedulers st (evt_address evt) of
           None \<Rightarrow> spawn (evt_target evt) st
         | Some _ \<Rightarrow> st)
      else
        (case activeSchedulers st (evt_address evt) of
           Some i \<Rightarrow>
             (let st = st\<lparr>activeSchedulers := go_delete (activeSchedulers st) (evt_address evt)\<rparr>;
                  st = cancelFunc i st
              in st\<lparr>cleaner := MarkForDeletion (evt_address evt) (cleaner st)\<rparr>)
         | None \<Rightarrow> st))"

text \<open>
  At shutdown every registered cancel function is called; the map keeps its entries. The
  argument is the order in which \<open>range\<close> visits it.
\<close>

definition cancel_all :: "address list \<Rightarrow> Loop \<Rightarrow> Loop" where
  "cancel_all order st =
     fold (\<lambda>a st. case activeSchedulers st a of Some i \<Rightarrow> cancelFunc i st | None \<Rightarrow> st) order st"

text \<open>
  The scrape handler runs in other goroutines: between two events any number of scrapes
  may be served. A history of the loop is a list of both.
\<close>

datatype loop_input = Event TargetEvent | Scrape "address list"

fun loop_step :: "loop_input \<Rightarrow> Loop \<Rightarrow> Loop" where
  "loop_step (Event e) st = handle_event e st"
| "loop_step (Scrape order) st = st\<lparr>cleaner := fst (collect_expired order (cleaner st))\<rparr>"

subsection \<open>The invariant\<close>

text \<open>The addresses being probed: those of the goroutines that are not cancelled.\<close>

definition probing :: "Loop \<Rightarrow> address set" where
  "probing st = {Address (sched_target s) | s. s \<in> set (schedulers st) \<and> \<not> cancelled s}"

text \<open>
  A registered cancel function belongs to a live goroutine for that address, every live
  goroutine is registered (none is leaked), and no address with a live goroutine waits for
  the deletion of its metrics.
\<close>

definition loop_inv :: "Loop \<Rightarrow> bool" where
  "loop_inv st \<longleftrightarrow>
     (\<forall>a i. activeSchedulers st a = Some i \<longleftrightarrow>
        i < length (schedulers st) \<and> \<not> cancelled (schedulers st ! i) \<and>
        Address (sched_target (schedulers st ! i)) = a) \<and>
     (\<forall>a. activeSchedulers st a \<noteq> None \<longrightarrow> pendingDeletes (cleaner st) a = None)"

lemma loop_inv_new: "loop_inv new_Loop"
  by (simp add: loop_inv_def new_Loop_def NewMetricsCleaner_def)

lemma loop_inv_pending:
  "loop_inv st \<Longrightarrow> activeSchedulers st a = Some i \<Longrightarrow> pendingDeletes (cleaner st) a = None"
  unfolding loop_inv_def by blast

lemma loop_inv_active:
  "loop_inv st \<Longrightarrow> activeSchedulers st a = Some i \<longleftrightarrow>
    i < length (schedulers st) \<and> \<not> cancelled (schedulers st ! i) \<and>
    Address (sched_target (schedulers st ! i)) = a"
  by (simp add: loop_inv_def)

lemma probing_active: "loop_inv st \<Longrightarrow> probing st = dom (activeSchedulers st)"
  by (force simp: probing_def dom_def loop_inv_active in_set_conv_nth)

lemma loop_inv_spawn:
  assumes "loop_inv st" "activeSchedulers st (Address t) = None"
    and "pendingDeletes (cleaner st) (Address t) = None"
  shows "loop_inv (spawn t st)"
proof -
  have "Address (sched_target (schedulers st ! i)) \<noteq> Address t"
    if "i < length (schedulers st)" "\<not> cancelled (schedulers st ! i)" for i
    using assms(1,2) that by (metis loop_inv_active option.distinct(1))
  with assms show ?thesis
    by (auto simp: loop_inv_def spawn_def nth_append less_Suc_eq)
qed

lemma loop_inv_stop:
  assumes "loop_inv st" "activeSchedulers st a = Some i"
  shows "loop_inv ((cancelFunc i (st\<lparr>activeSchedulers := go_delete (activeSchedulers st) a\<rparr>))
    \<lparr>cleaner := MarkForDeletion a (cleaner st)\<rparr>)"
proof -
  have uniq: "j = i" if "j < length (schedulers st)" "\<not> cancelled (schedulers st ! j)"
    "Address (sched_target (schedulers st ! j)) = a" for j
    using assms that by (metis loop_inv_active option.inject)
  let ?st = "(cancelFunc i (st\<lparr>activeSchedulers := go_delete (activeSchedulers st) a\<rparr>))
    \<lparr>cleaner := MarkForDeletion a (cleaner st)\<rparr>"
  have "activeSchedulers ?st b = Some j \<longleftrightarrow>
      j < length (schedulers ?st) \<and> \<not> cancelled (schedulers ?st ! j) \<and>
      Address (sched_target (schedulers ?st ! j)) = b" for b j
    using assms uniq by (auto simp: cancelFunc_def nth_list_update loop_inv_active)
  moreover have "pendingDeletes (cleaner ?st) b = None" if "activeSchedulers ?st b \<noteq> None" for b
    using that assms(1) by (auto simp: cancelFunc_def MarkForDeletion_def intro: loop_inv_pending
        split: if_splits)
  ultimately show ?thesis unfolding loop_inv_def by blast
qed

lemma loop_inv_handle: "loop_inv st \<Longrightarrow> loop_inv (handle_event evt st)"
proof (cases "IsAdded evt")
  case True
  assume inv: "loop_inv st"
  let ?st = "st\<lparr>cleaner := AbortDeletion (evt_address evt) (cleaner st)\<rparr>"
  have inv': "loop_inv ?st"
    using inv by (simp add: loop_inv_def AbortDeletion_def)
  with True show ?thesis
    using loop_inv_spawn [OF inv', of "evt_target evt"]
    by (auto simp: handle_event_def AbortDeletion_def Let_def split: option.split)
next
  case False
  assume "loop_inv st"
  with False show ?thesis
    using loop_inv_stop [of st "evt_address evt"]
    by (auto simp: handle_event_def Let_def cancelFunc_def split: option.split)
qed

lemma pending_collect:
  "pendingDeletes c a = None \<Longrightarrow> pendingDeletes (fst (fold collect_step order (c, ts))) a = None"
proof (induction order arbitrary: c ts)
  case Nil
  then show ?case by simp
next
  case (Cons b order)
  obtain c' ts' where s: "collect_step b (c, ts) = (c', ts')" by fastforce
  have "pendingDeletes c' a = None"
    using Cons.prems s by (auto simp: collect_step_def split: option.splits if_splits)
  with Cons.IH s show ?case by simp
qed

lemma loop_inv_step: "loop_inv st \<Longrightarrow> loop_inv (loop_step x st)"
proof (cases x)
  case (Scrape order)
  assume inv: "loop_inv st"
  then have "pendingDeletes (fst (collect_expired order (cleaner st))) a = None"
    if "activeSchedulers st a \<noteq> None" for a
    using that by (auto simp: collect_expired_def intro: pending_collect loop_inv_pending)
  with inv show ?thesis by (simp add: Scrape loop_inv_def)
qed (simp add: loop_inv_handle)

lemma loop_inv_run: "loop_inv st \<Longrightarrow> loop_inv (fold loop_step xs st)"
  by (rule fold_loop_invariant) (auto intro: loop_inv_step)

subsection \<open>Refinement: the loop realises the events\<close>

text \<open>
  The consumer's side of the contract \<open>event_source\<close>: handling one event changes what
  runs exactly as the event says, and other steps do not change it.
\<close>

locale event_consumer =
  fixes handle :: "TargetEvent \<Rightarrow> 'c \<Rightarrow> 'c"
    and inv_c :: "'c \<Rightarrow> bool"
    and probed :: "'c \<Rightarrow> address set"
  assumes inv_handle: "inv_c c \<Longrightarrow> inv_c (handle e c)"
    and probed_handle: "inv_c c \<Longrightarrow> probed (handle e c) = replay (probed c) [e]"
begin

lemma inv_handles: "inv_c c \<Longrightarrow> inv_c (fold handle es c)"
  by (rule fold_loop_invariant) (auto intro: inv_handle)

lemma probed_handles: "inv_c c \<Longrightarrow> probed (fold handle es c) = replay (probed c) es"
proof (induction es arbitrary: c)
  case Nil
  then show ?case by simp
next
  case (Cons e es)
  then have "probed (fold handle es (handle e c)) = replay (replay (probed c) [e]) es"
    by (simp add: inv_handle probed_handle)
  then show ?case by simp
qed

end

text \<open>A producer and a consumer that start from the same addresses agree at the end.\<close>

locale event_pipeline = event_source step valid inv running + event_consumer handle inv_c probed
  for step :: "'s \<Rightarrow> 'op \<Rightarrow> 's \<times> TargetEvent list"
    and valid :: "'s \<Rightarrow> 'op \<Rightarrow> bool"
    and inv :: "'s \<Rightarrow> bool"
    and running :: "'s \<Rightarrow> address set"
    and handle :: "TargetEvent \<Rightarrow> 'c \<Rightarrow> 'c"
    and inv_c :: "'c \<Rightarrow> bool"
    and probed :: "'c \<Rightarrow> address set"
begin

lemma pipeline_agrees:
  assumes "inv s" "valid_ops step valid s xs" "inv_c c" "probed c = running s"
  shows "probed (fold handle (snd (run_ops step s xs)) c) = running (fst (run_ops step s xs))"
  using assms run_replay [of s xs] probed_handles [of c] by simp

end

lemma handle_event_active:
  "dom (activeSchedulers (handle_event e st)) = replay (dom (activeSchedulers st)) [e]"
  by (auto simp: handle_event_def spawn_def cancelFunc_def Let_def split: option.splits)

interpretation scheduler_loop: event_consumer handle_event loop_inv probing
  by unfold_locales
    (simp_all add: loop_inv_handle probing_active handle_event_active del: replay.simps)

subsection \<open>Shutdown\<close>

lemma cancel_all_frame [frame_simps]:
  "activeSchedulers (cancel_all order st) = activeSchedulers st"
  "length (schedulers (cancel_all order st)) = length (schedulers st)"
  unfolding cancel_all_def
  by (rule fold_loop_invariant, simp,
      auto simp: cancelFunc_def split: option.splits)+

lemma cancelled_cancelFunc:
  "i < length (schedulers st) \<Longrightarrow>
    cancelled (schedulers (cancelFunc j st) ! i) \<longleftrightarrow> cancelled (schedulers st ! i) \<or> i = j"
  by (cases "i = j") (simp_all add: cancelFunc_def)

lemma cancel_all_cancels:
  "i < length (schedulers st) \<Longrightarrow>
    cancelled (schedulers (cancel_all order st) ! i) \<longleftrightarrow>
      cancelled (schedulers st ! i) \<or> (\<exists>a \<in> set order. activeSchedulers st a = Some i)"
proof (induction order arbitrary: st)
  case Nil
  then show ?case by (simp add: cancel_all_def)
next
  case (Cons a order)
  let ?st = "case activeSchedulers st a of Some i \<Rightarrow> cancelFunc i st | None \<Rightarrow> st"
  have "activeSchedulers ?st = activeSchedulers st" "length (schedulers ?st) = length (schedulers st)"
    by (simp_all add: cancelFunc_def split: option.split)
  moreover have "cancelled (schedulers ?st ! i) \<longleftrightarrow>
      cancelled (schedulers st ! i) \<or> activeSchedulers st a = Some i"
    using Cons.prems by (auto simp: cancelled_cancelFunc split: option.split)
  moreover have "cancel_all (a # order) st = cancel_all order ?st"
    by (simp add: cancel_all_def)
  ultimately show ?case
    using Cons.IH [of ?st] Cons.prems by auto
qed

subsection \<open>Properties\<close>

definition ex_target :: "address \<Rightarrow> Target" where
  "ex_target a = zero_Target\<lparr>Address := a, Scheme := ''http''\<rparr>"

definition ex_history :: "loop_input list" where
  "ex_history = [Event (added (ex_target ''a'')), Event (added (ex_target ''a'')),
     Event (added (ex_target ''b'')), Event (removed (ex_target ''a''))]"

lemma ex_history_state:
  "fold loop_step ex_history new_Loop =
    \<lparr>activeSchedulers = [''b'' \<mapsto> 1],
     schedulers = [\<lparr>sched_target = ex_target ''a'', cancelled = True\<rparr>,
                   \<lparr>sched_target = ex_target ''b'', cancelled = False\<rparr>],
     cleaner = \<lparr>pendingDeletes = [''a'' \<mapsto> 1]\<rparr>\<rparr>"
  by (auto simp: ex_history_def new_Loop_def handle_event_def spawn_def cancelFunc_def Let_def
      AbortDeletion_def MarkForDeletion_def NewMetricsCleaner_def ex_target_def fun_eq_iff)

text \<open>
  C6. After any history of events and scrapes, no address has two live scheduler
  goroutines, and no live goroutine is out of reach: the cancel function registered for its
  address is its own.
\<close>

theorem no_duplicate_or_leaked_scheduler:
  assumes "i < length (schedulers (fold loop_step xs new_Loop))"
    and "\<not> cancelled (schedulers (fold loop_step xs new_Loop) ! i)"
  shows "activeSchedulers (fold loop_step xs new_Loop)
      (Address (sched_target (schedulers (fold loop_step xs new_Loop) ! i))) = Some i \<and>
    (\<forall>j < length (schedulers (fold loop_step xs new_Loop)).
       \<not> cancelled (schedulers (fold loop_step xs new_Loop) ! j) \<and>
       Address (sched_target (schedulers (fold loop_step xs new_Loop) ! j)) =
         Address (sched_target (schedulers (fold loop_step xs new_Loop) ! i)) \<longrightarrow> j = i)"
proof -
  have inv: "loop_inv (fold loop_step xs new_Loop)"
    by (intro loop_inv_run loop_inv_new)
  then have "activeSchedulers (fold loop_step xs new_Loop)
      (Address (sched_target (schedulers (fold loop_step xs new_Loop) ! i))) = Some i"
    using assms by (simp add: loop_inv_active)
  then show ?thesis using inv by (metis loop_inv_active option.inject)
qed

theorem no_duplicate_or_leaked_scheduler_witness:
  "activeSchedulers (fold loop_step ex_history new_Loop) ''b'' = Some 1"
  using no_duplicate_or_leaked_scheduler [of 1 ex_history]
  by (simp add: ex_history_state ex_target_def)

text \<open>
  Shutdown stops every scheduler: after any history, calling all registered cancel
  functions leaves no live goroutine.
\<close>

lemma shutdown_cancels_all:
  assumes "range_order order (activeSchedulers (fold loop_step xs new_Loop))"
  shows "probing (cancel_all order (fold loop_step xs new_Loop)) = {}"
proof -
  let ?st = "fold loop_step xs new_Loop"
  have inv: "loop_inv ?st" by (intro loop_inv_run loop_inv_new)
  have "cancelled (schedulers (cancel_all order ?st) ! i)" if "i < length (schedulers ?st)" for i
  proof (cases "cancelled (schedulers ?st ! i)")
    case True
    then show ?thesis using that by (simp add: cancel_all_cancels)
  next
    case False
    with that inv have "activeSchedulers ?st (Address (sched_target (schedulers ?st ! i))) = Some i"
      by (simp add: loop_inv_active)
    then show ?thesis using that assms by (auto simp: cancel_all_cancels range_order_def)
  qed
  then show ?thesis
    by (auto simp: probing_def in_set_conv_nth frame_simps)
qed

lemma shutdown_cancels_all_witness:
  "probing (cancel_all [''b''] (fold loop_step ex_history new_Loop)) = {}"
  by (rule shutdown_cancels_all) (simp add: ex_history_state range_order_def)



end
