(* ===== verification/Url.thy ===== *)
theory Url
  imports Prelude
begin

section \<open>Parsing addresses: net/url and net.SplitHostPort\<close>

text \<open>
  What the program uses of the standard library to take an address apart: \<open>url.Parse\<close>
  with the fields \<open>Scheme\<close>, \<open>Host\<close> and \<open>Path\<close> of its result (\<open>None\<close> is an error), and
  \<open>net.SplitHostPort\<close>. The definitions follow Go 1.26, the version of go.mod, for the
  schemes of the program: a host outside brackets has at most one colon. Whether the text
  in brackets is an IPv6 literal is decided by \<open>netip.ParseAddr\<close>, the argument \<open>ip6\<close>.
\<close>

definition is_alpha :: "char \<Rightarrow> bool" where
  "is_alpha c \<longleftrightarrow> (65 \<le> (of_char c :: nat) \<and> (of_char c :: nat) \<le> 90) \<or>
     (97 \<le> (of_char c :: nat) \<and> (of_char c :: nat) \<le> 122)"

definition to_lower :: "char \<Rightarrow> char" where
  "to_lower c = (if 65 \<le> (of_char c :: nat) \<and> (of_char c :: nat) \<le> 90
     then char_of ((of_char c :: nat) + 32) else c)"

definition is_ctl :: "char \<Rightarrow> bool" where
  "is_ctl c \<longleftrightarrow> (of_char c :: nat) < 32 \<or> (of_char c :: nat) = 127"

text \<open>\<open>strings.Cut\<close> at a character, without the flag, and the cut at its last occurrence.\<close>

definition cut :: "char \<Rightarrow> string \<Rightarrow> string \<times> string" where
  "cut c s = (takeWhile (\<lambda>x. x \<noteq> c) s, drop 1 (dropWhile (\<lambda>x. x \<noteq> c) s))"

definition cut_last :: "char \<Rightarrow> string \<Rightarrow> string \<times> string" where
  "cut_last c s = (rev (drop 1 (dropWhile (\<lambda>x. x \<noteq> c) (rev s))), rev (takeWhile (\<lambda>x. x \<noteq> c) (rev s)))"

subsection \<open>Percent-decoding\<close>

datatype enc_mode = encodePath | encodeUserPassword | encodeHost | encodeZone | encodeFragment

definition is_hex :: "char \<Rightarrow> bool" where
  "is_hex c \<longleftrightarrow> is_digit c \<or> (65 \<le> (of_char c :: nat) \<and> (of_char c :: nat) \<le> 70) \<or>
     (97 \<le> (of_char c :: nat) \<and> (of_char c :: nat) \<le> 102)"

definition unhex :: "char \<Rightarrow> nat" where
  "unhex c = (if is_digit c then of_char c - 48
     else if (of_char c :: nat) \<ge> 97 then of_char c - 97 + 10 else of_char c - 65 + 10)"

text \<open>\<open>shouldEscape\<close> for the host modes: the characters that may stand for themselves.\<close>

definition host_char :: "char \<Rightarrow> bool" where
  "host_char c \<longleftrightarrow> is_alpha c \<or> is_digit c \<or>
     (of_char c :: nat) \<in> {0x21, 0x24, 0x26, 0x27, 0x28, 0x29, 0x2A, 0x2B, 0x2C, 0x3B, 0x3D, 0x3A,
       0x5B, 0x5D, 0x3C, 0x3E, 0x22} \<or>
     c \<in> set ''-_.~''"

fun unescape :: "enc_mode \<Rightarrow> string \<Rightarrow> string option" where
  "unescape m [] = Some []"
| "unescape m (c # s) =
     (if c = CHR ''%'' then
        (case s of
           a # b # s' \<Rightarrow>
             if is_hex a \<and> is_hex b
               \<and> \<not> (m = encodeHost \<and> unhex a < 8 \<and> [a, b] \<noteq> ''25'')
               \<and> \<not> (m = encodeZone \<and> [a, b] \<noteq> ''25'' \<and> 16 * unhex a + unhex b \<noteq> 32
                     \<and> \<not> host_char (char_of (16 * unhex a + unhex b)))
             then map_option (Cons (char_of (16 * unhex a + unhex b))) (unescape m s')
             else None
         | _ \<Rightarrow> None)
      else if (m = encodeHost \<or> m = encodeZone) \<and> (of_char c :: nat) < 128 \<and> \<not> host_char c then None
      else map_option (Cons c) (unescape m s))"

subsection \<open>url.Parse\<close>

record URL =
  URL_Scheme :: string
  URL_Host :: string
  URL_Path :: string

definition scheme_char :: "char \<Rightarrow> bool" where
  "scheme_char c \<longleftrightarrow> is_alpha c \<or> is_digit c \<or> c \<in> set ''+-.''"

definition getScheme :: "string \<Rightarrow> (string \<times> string) option" where
  "getScheme raw =
     (case raw of
        [] \<Rightarrow> Some ([], raw)
      | c # _ \<Rightarrow>
          if c = CHR '':'' then None
          else if \<not> is_alpha c then Some ([], raw)
          else
            (let p = takeWhile scheme_char raw in
             case drop (length p) raw of
               d # rest \<Rightarrow> if d = CHR '':'' then Some (p, rest) else Some ([], raw)
             | [] \<Rightarrow> Some ([], raw)))"

definition validUserinfo :: "string \<Rightarrow> bool" where
  "validUserinfo s \<longleftrightarrow>
     list_all (\<lambda>c. is_alpha c \<or> is_digit c \<or> c \<in> set ''-._:~!$&()*+,;=%@'' \<or> c = CHR 0x27) s"

definition validOptionalPort :: "string \<Rightarrow> bool" where
  "validOptionalPort port =
     (case port of [] \<Rightarrow> True | c # ds \<Rightarrow> c = CHR '':'' \<and> list_all is_digit ds)"

text \<open>The part of a bracketed host before and after a zone, which starts at \<open>%25\<close>.\<close>

fun split_zone :: "string \<Rightarrow> string \<times> string option" where
  "split_zone [] = ([], None)"
| "split_zone (c # s) =
     (if HasPrefix (c # s) ''%25'' then ([], Some (c # s))
      else (case split_zone s of (h, z) \<Rightarrow> (c # h, z)))"

definition parseHost :: "(string \<Rightarrow> bool) \<Rightarrow> string \<Rightarrow> string option" where
  "parseHost ip6 host =
     (if HasPrefix host ''['' then
        (if CHR '']'' \<notin> set host then None
         else
           (let (literal, colonPort) = cut_last CHR '']'' (drop 1 host) in
            if \<not> validOptionalPort colonPort then None
            else
              (case split_zone literal of
                 (h, None) \<Rightarrow>
                   (case unescape encodeHost h of
                      None \<Rightarrow> None
                    | Some a \<Rightarrow> if ip6 a then Some (''['' @ a @ '']'' @ colonPort) else None)
               | (h, Some z) \<Rightarrow>
                   (case (unescape encodeHost h, unescape encodeZone z) of
                      (Some a, Some b) \<Rightarrow>
                        if ip6 (a @ b) then Some (''['' @ a @ b @ '']'' @ colonPort) else None
                    | _ \<Rightarrow> None))))
      else if CHR ''['' \<in> set host then None
      else if \<not> validOptionalPort (dropWhile (\<lambda>c. c \<noteq> CHR '':'') host) then None
      else unescape encodeHost host)"

definition parseAuthority :: "(string \<Rightarrow> bool) \<Rightarrow> string \<Rightarrow> string option" where
  "parseAuthority ip6 authority =
     (if CHR ''@'' \<notin> set authority then parseHost ip6 authority
      else
        (let (userinfo, host) = cut_last CHR ''@'' authority in
         case parseHost ip6 host of
           None \<Rightarrow> None
         | Some h \<Rightarrow>
             if \<not> validUserinfo userinfo \<or> unescape encodeUserPassword userinfo = None then None
             else Some h))"

text \<open>
  After the scheme: the query is cut off, a rootless rest is opaque under a scheme, and a
  rest that starts with two slashes names an authority.
\<close>

definition parse_rest :: "(string \<Rightarrow> bool) \<Rightarrow> string \<Rightarrow> string \<Rightarrow> URL option" where
  "parse_rest ip6 scheme rest0 =
     (let rest = fst (cut CHR ''?'' rest0) in
      if \<not> HasPrefix rest ''/'' \<and> scheme \<noteq> [] then
        Some \<lparr>URL_Scheme = scheme, URL_Host = [], URL_Path = []\<rparr>
      else if \<not> HasPrefix rest ''/'' \<and> CHR '':'' \<in> set (fst (cut CHR ''/'' rest)) then None
      else if (scheme \<noteq> [] \<or> \<not> HasPrefix rest ''///'') \<and> HasPrefix rest ''//'' then
        (let authority = takeWhile (\<lambda>c. c \<noteq> CHR ''/'') (drop 2 rest);
             path = dropWhile (\<lambda>c. c \<noteq> CHR ''/'') (drop 2 rest)
         in case parseAuthority ip6 authority of
              None \<Rightarrow> None
            | Some host \<Rightarrow>
                (case unescape encodePath path of
                   None \<Rightarrow> None
                 | Some p \<Rightarrow> Some \<lparr>URL_Scheme = scheme, URL_Host = host, URL_Path = p\<rparr>))
      else
        (case unescape encodePath rest of
           None \<Rightarrow> None
         | Some p \<Rightarrow> Some \<lparr>URL_Scheme = scheme, URL_Host = [], URL_Path = p\<rparr>))"

definition url_Parse :: "(string \<Rightarrow> bool) \<Rightarrow> string \<Rightarrow> URL option" where
  "url_Parse ip6 rawURL =
     (let (u, frag) = cut CHR ''#'' rawURL in
      if list_ex is_ctl u then None
      else if u = ''*'' then Some \<lparr>URL_Scheme = [], URL_Host = [], URL_Path = u\<rparr>
      else
        (case getScheme u of
           None \<Rightarrow> None
         | Some (scheme, rest) \<Rightarrow>
             (case parse_rest ip6 (map to_lower scheme) rest of
                None \<Rightarrow> None
              | Some url \<Rightarrow>
                  if frag \<noteq> [] \<and> unescape encodeFragment frag = None then None else Some url)))"

subsection \<open>net.SplitHostPort\<close>

definition SplitHostPort :: "string \<Rightarrow> (string \<times> string) option" where
  "SplitHostPort hostport =
     (if CHR '':'' \<notin> set hostport then None
      else
        (let (before, port) = cut_last CHR '':'' hostport in
         if HasPrefix hostport ''['' then
           (let literal = takeWhile (\<lambda>c. c \<noteq> CHR '']'') (drop 1 hostport) in
            if before = ''['' @ literal @ '']'' \<and> CHR ''['' \<notin> set (literal @ port) \<and> CHR '']'' \<notin> set port
            then Some (literal, port) else None)
         else if CHR '':'' \<in> set before \<or> CHR ''['' \<in> set hostport \<or> CHR '']'' \<in> set hostport then None
         else Some (before, port)))"

subsection \<open>Addresses the program builds\<close>

text \<open>
  For a lower-case scheme, a host of letters, digits, dashes and dots with an optional
  numeric port, and a path without reserved characters, parsing takes the address apart
  where it was put together.
\<close>

definition lower_word :: "string \<Rightarrow> bool" where
  "lower_word s \<longleftrightarrow> s \<noteq> [] \<and> list_all (\<lambda>c. 97 \<le> (of_char c :: nat) \<and> (of_char c :: nat) \<le> 122) s"

definition hostname_char :: "char \<Rightarrow> bool" where
  "hostname_char c \<longleftrightarrow> is_alpha c \<or> is_digit c \<or> c \<in> set ''-.''"

definition plain_host :: "string \<Rightarrow> bool" where
  "plain_host h \<longleftrightarrow> h \<noteq> [] \<and> list_all hostname_char h"

definition plain_path :: "string \<Rightarrow> bool" where
  "plain_path p \<longleftrightarrow> (p = [] \<or> HasPrefix p ''/'') \<and>
     list_all (\<lambda>c. \<not> is_ctl c \<and> c \<notin> set ''#?%'') p"

definition hostport :: "string \<Rightarrow> string \<Rightarrow> string" where
  "hostport h port = h @ '':'' @ port"

lemma cut_none: "c \<notin> set s \<Longrightarrow> cut c s = (s, [])"
proof -
  assume "c \<notin> set s"
  then have "\<forall>x \<in> set s. x \<noteq> c" by auto
  then have "takeWhile (\<lambda>x. x \<noteq> c) s = s" "dropWhile (\<lambda>x. x \<noteq> c) s = []"
    by (simp_all only: takeWhile_eq_all_conv dropWhile_eq_Nil_conv)
  then show ?thesis by (simp only: cut_def drop_Nil)
qed

lemma lower_word_char:
  assumes "lower_word s" "c \<in> set s"
  shows "is_alpha c" "scheme_char c" "to_lower c = c" "\<not> is_ctl c" "c \<notin> set ''#?:/*''"
  using assms by (auto simp: lower_word_def list_all_iff is_alpha_def scheme_char_def to_lower_def is_ctl_def)

lemma hostname_char_props:
  assumes "hostname_char c"
  shows "host_char c" "\<not> is_ctl c" "c \<notin> set ''#?/%@[]:''"
  using assms by (auto simp: hostname_char_def host_char_def is_ctl_def is_alpha_def is_digit_def)

lemma unescape_id:
  "(\<And>c. c \<in> set s \<Longrightarrow> c \<noteq> CHR ''%'' \<and> (m = encodeHost \<or> m = encodeZone \<longrightarrow> host_char c)) \<Longrightarrow>
    unescape m s = Some s"
  by (induction s) auto

lemma digit_hostname: "is_digit c \<Longrightarrow> hostname_char c"
  by (simp add: hostname_char_def)

lemma colon_props: "host_char CHR '':''" "\<not> is_ctl CHR '':''" "CHR '':'' \<notin> set ''#?/%@[]''"
  by (simp_all add: host_char_def is_ctl_def)

lemma hostport_chars:
  assumes "plain_host h" "list_all is_digit port" "c \<in> set (hostport h port)"
  shows "host_char c" "\<not> is_ctl c" "c \<notin> set ''#?/%@[]''"
proof -
  have "hostname_char c \<or> c = CHR '':''"
    using assms by (auto simp: hostport_def plain_host_def list_all_iff digit_hostname)
  then show "host_char c" "\<not> is_ctl c" "c \<notin> set ''#?/%@[]''"
    using hostname_char_props [of c] colon_props by auto
qed

lemma takeWhile_slash:
  assumes "CHR ''/'' \<notin> set a" "p = [] \<or> HasPrefix p ''/''"
  shows "takeWhile (\<lambda>c. c \<noteq> CHR ''/'') (a @ p) = a" "dropWhile (\<lambda>c. c \<noteq> CHR ''/'') (a @ p) = p"
proof -
  have a: "\<And>x. x \<in> set a \<Longrightarrow> x \<noteq> CHR ''/''" using assms(1) by auto
  have p: "takeWhile (\<lambda>c. c \<noteq> CHR ''/'') p = []" "dropWhile (\<lambda>c. c \<noteq> CHR ''/'') p = p"
    using assms(2) by (auto simp: HasPrefix_iff)
  show "takeWhile (\<lambda>c. c \<noteq> CHR ''/'') (a @ p) = a"
    using a p(1) by (simp add: takeWhile_append2)
  show "dropWhile (\<lambda>c. c \<noteq> CHR ''/'') (a @ p) = p"
    using a p(2) by (simp add: dropWhile_append2)
qed

lemma parseAuthority_hostport:
  assumes "plain_host h" "list_all is_digit port"
  shows "parseAuthority ip6 (hostport h port) = Some (hostport h port)"
proof -
  note chars = hostport_chars [OF assms]
  have nin: "CHR ''@'' \<notin> set (hostport h port)" "CHR ''['' \<notin> set (hostport h port)"
    using chars(3) [of "CHR ''@''"] chars(3) [of "CHR ''[''"] by auto
  have "\<And>c. c \<in> set h \<Longrightarrow> c \<noteq> CHR '':''"
    using assms(1) hostname_char_props(3) [of "CHR '':''"] by (auto simp: plain_host_def list_all_iff)
  then have "dropWhile (\<lambda>c. c \<noteq> CHR '':'') (hostport h port) = '':'' @ port"
    by (simp add: hostport_def dropWhile_append2)
  then have "validOptionalPort (dropWhile (\<lambda>c. c \<noteq> CHR '':'') (hostport h port))"
    using assms(2) by (simp add: validOptionalPort_def)
  moreover have "\<not> HasPrefix (hostport h port) ''[''"
    using nin(2) by (auto simp: HasPrefix_iff)
  moreover have "unescape encodeHost (hostport h port) = Some (hostport h port)"
    using chars(1) chars(3) [of "CHR ''%''"] by (intro unescape_id) auto
  ultimately show ?thesis
    using nin by (simp add: parseAuthority_def parseHost_def)
qed

lemma plain_path_chars:
  "plain_path p \<Longrightarrow> c \<in> set p \<Longrightarrow> \<not> is_ctl c"
  "plain_path p \<Longrightarrow> c \<in> set p \<Longrightarrow> c \<notin> set ''#?%''"
  by (simp_all add: plain_path_def list_all_iff)

lemma getScheme_colon:
  assumes "lower_word s"
  shows "getScheme (s @ CHR '':'' # rest) = Some (s, rest)"
proof -
  have colon: "\<not> scheme_char CHR '':''" by (simp add: scheme_char_def is_alpha_def is_digit_def)
  have "takeWhile scheme_char (s @ CHR '':'' # rest) = s"
    using lower_word_char(2) [OF assms] colon by (simp add: takeWhile_append2)
  moreover obtain c s' where s: "s = c # s'" using assms by (cases s) (auto simp: lower_word_def)
  moreover have "is_alpha c" "c \<noteq> CHR '':''"
    using lower_word_char(1,5) [OF assms, of c] by (simp_all add: s)
  ultimately show ?thesis by (simp add: getScheme_def Let_def)
qed

text \<open>The authority between the slashes decides, when nothing in it is reserved.\<close>

definition authority_char :: "char \<Rightarrow> bool" where
  "authority_char c \<longleftrightarrow> host_char c \<and> \<not> is_ctl c \<and> c \<notin> set ''#?/%@[]''"

lemma url_Parse_authority:
  assumes "lower_word s" "\<And>c. c \<in> set auth \<Longrightarrow> authority_char c" "plain_path p"
  shows "url_Parse ip6 (s @ ''://'' @ auth @ p) =
    map_option (\<lambda>h. \<lparr>URL_Scheme = s, URL_Host = h, URL_Path = p\<rparr>) (parseAuthority ip6 auth)"
proof -
  have chars: "\<not> is_ctl c" "c \<notin> set ''#?/%@[]''" if "c \<in> set auth" for c
    using assms(2) [OF that] by (simp_all add: authority_char_def)
  let ?rest = "CHR ''/'' # CHR ''/'' # auth @ p"
  let ?raw = "s @ CHR '':'' # ?rest"
  have hash: "CHR ''#'' \<notin> set ?raw" and query: "CHR ''?'' \<notin> set ?rest"
    using chars(2) [of "CHR ''#''"] chars(2) [of "CHR ''?''"] lower_word_char(5) [OF assms(1), of "CHR ''#''"]
      plain_path_chars(2) [OF assms(3), of "CHR ''#''"] plain_path_chars(2) [OF assms(3), of "CHR ''?''"]
    by auto
  have ctl: "\<not> list_ex is_ctl ?raw"
    using chars(1) plain_path_chars(1) [OF assms(3)] lower_word_char(4) [OF assms(1)] colon_props(2)
    by (auto simp: list_ex_iff is_ctl_def)
  have lower: "map to_lower s = s"
    using lower_word_char(3) [OF assms(1)] by (simp add: map_idI)
  have slash: "CHR ''/'' \<notin> set auth"
    using chars(2) [of "CHR ''/''"] by auto
  have path: "unescape encodePath p = Some p"
    using plain_path_chars(2) [OF assms(3)] by (intro unescape_id) auto
  have q: "cut CHR ''?'' ?rest = (?rest, [])" by (rule cut_none [OF query])
  have p: "p = [] \<or> HasPrefix p ''/''" using assms(3) by (simp add: plain_path_def)
  have ne: "s \<noteq> []" using assms(1) by (simp add: lower_word_def)
  have rest: "parse_rest ip6 s ?rest =
      map_option (\<lambda>h. \<lparr>URL_Scheme = s, URL_Host = h, URL_Path = p\<rparr>) (parseAuthority ip6 auth)"
    unfolding parse_rest_def q Let_def fst_conv
    by (simp add: ne HasPrefix_def takeWhile_slash [OF slash p] path split: option.split)
  have "length ?raw \<noteq> length ''*''" using ne by (cases s) simp_all
  then have "?raw \<noteq> ''*''" by metis
  then have "url_Parse ip6 ?raw =
      map_option (\<lambda>h. \<lparr>URL_Scheme = s, URL_Host = h, URL_Path = p\<rparr>) (parseAuthority ip6 auth)"
    unfolding url_Parse_def cut_none [OF hash] Let_def case_prod_conv getScheme_colon [OF assms(1)]
      lower option.case rest
    using ctl by (simp split: option.split)
  then show ?thesis by simp
qed

lemma url_Parse_hostport:
  assumes "lower_word s" "plain_host h" "list_all is_digit port" "plain_path p"
  shows "url_Parse ip6 (s @ ''://'' @ hostport h port @ p) =
    Some \<lparr>URL_Scheme = s, URL_Host = hostport h port, URL_Path = p\<rparr>"
proof -
  have "authority_char c" if "c \<in> set (hostport h port)" for c
    using hostport_chars [OF assms(2,3) that] by (simp add: authority_char_def)
  then show ?thesis
    by (simp only: url_Parse_authority [OF assms(1) _ assms(4)] parseAuthority_hostport [OF assms(2,3)]
        option.map)
qed

text \<open>A host outside brackets with a colon before its port is rejected.\<close>

lemma parseAuthority_colons:
  assumes "CHR '':'' \<in> set h" "\<And>c. c \<in> set h \<Longrightarrow> authority_char c"
  shows "parseAuthority ip6 (hostport h port) = None \<or> CHR ''@'' \<in> set port \<or> CHR ''['' \<in> set port"
proof -
  obtain u v where h: "h = u @ CHR '':'' # v" "CHR '':'' \<notin> set u"
    using split_list_first [OF assms(1)] by auto
  then have "\<And>c. c \<in> set u \<Longrightarrow> c \<noteq> CHR '':''" by auto
  then have "dropWhile (\<lambda>c. c \<noteq> CHR '':'') (hostport h port) = CHR '':'' # v @ CHR '':'' # port"
    by (simp add: h hostport_def dropWhile_append2)
  then have "\<not> validOptionalPort (dropWhile (\<lambda>c. c \<noteq> CHR '':'') (hostport h port))"
    by (simp add: validOptionalPort_def is_digit_def)
  moreover have "CHR ''@'' \<notin> set h" "CHR ''['' \<notin> set h"
    using assms(2) [of "CHR ''@''"] assms(2) [of "CHR ''[''"] by (auto simp: authority_char_def)
  moreover have "\<not> HasPrefix (hostport h port) ''['' \<or> CHR ''['' \<in> set h"
    using assms(1) by (cases h) (auto simp: hostport_def HasPrefix_def)
  ultimately show ?thesis
    by (auto simp: parseAuthority_def parseHost_def hostport_def)
qed

end
