(* ===== verification/Config.thy ===== *)
theory Config
  imports Prelude
begin

section \<open>Runtime parameters (pkg/env/env.go and the head of main)\<close>

text \<open>
  \<open>env.GetInt\<close> over the process environment, which is a map from names to values
  (\<open>os.Getenv\<close> gives the empty string for an unset name), and the parameters \<open>main\<close>
  derives from it. Go's \<open>int\<close> and \<open>time.Duration\<close> are 64-bit words read by \<open>sint\<close>, so
  \<open>numWorkers*2\<close> and the conversion of seconds to nanoseconds wrap around.
\<close>

type_synonym go_int = "64 word"
type_synonym environment = "string \<rightharpoonup> string"

subsection \<open>strconv.Atoi\<close>

definition digit_value :: "char \<Rightarrow> nat" where
  "digit_value c = of_char c - 48"

definition dec_value :: "string \<Rightarrow> nat" where
  "dec_value ds = fold (\<lambda>c n. 10 * n + digit_value c) ds 0"

text \<open>
  The optional sign, at least one digit and nothing but digits, and a value that fits:
  everything else is an error.
\<close>

fun split_sign :: "string \<Rightarrow> bool \<times> string" where
  "split_sign [] = (False, [])"
| "split_sign (c # s) =
     (if c = CHR ''-'' then (True, s) else if c = CHR ''+'' then (False, s) else (False, c # s))"

definition Atoi :: "string \<Rightarrow> go_int option" where
  "Atoi s =
     (let (neg, ds) = split_sign s in
      if ds = [] \<or> \<not> list_all is_digit ds then None
      else
        (let v = (if neg then - int (dec_value ds) else int (dec_value ds)) in
         if - (2 ^ 63) \<le> v \<and> v < 2 ^ 63 then Some (word_of_int v) else None))"

definition GetInt :: "environment \<Rightarrow> string \<Rightarrow> go_int \<Rightarrow> go_int" where
  "GetInt env name defaultVal =
     (let valStr = get_string env name in
      if valStr = [] then defaultVal
      else (case Atoi valStr of None \<Rightarrow> defaultVal | Some val \<Rightarrow> val))"

subsection \<open>The parameters of main\<close>

definition Second :: go_int where
  "Second = 1000000000"

record Config =
  debugLog :: bool
  numWorkers :: go_int
  jobQueueSize :: go_int
  probeInterval :: go_int
  probeTimeout :: go_int
  maxIdleConns :: go_int
  maxIdleConnsPerHost :: go_int
  maxConcurrentProbes :: go_int

definition load_config :: "environment \<Rightarrow> Config" where
  "load_config env =
     (let numWorkers = GetInt env ''WORKERS'' 50 in
      \<lparr>debugLog = (get_string env ''LOG_LEVEL'' = ''DEBUG''),
       numWorkers = numWorkers,
       jobQueueSize = GetInt env ''QUEUE_SIZE'' 10000,
       probeInterval = GetInt env ''PROBE_INTERVAL_SECONDS'' 2 * Second,
       probeTimeout = GetInt env ''PROBE_TIMEOUT_SECONDS'' 5 * Second,
       maxIdleConns = GetInt env ''MAX_IDLE_CONNS'' 1000,
       maxIdleConnsPerHost = GetInt env ''MAX_IDLE_CONNS_PER_HOST'' 100,
       maxConcurrentProbes = GetInt env ''MAX_CONCURRENT_PROBES'' (numWorkers * 2)\<rparr>)"

text \<open>
  What the parameters do at startup: the size of the worker pool (\<open>for range numWorkers\<close>
  runs no iteration for a number that is not positive), the capacity of the job queue
  (\<open>make\<close> panics for a negative size: \<open>None\<close>), and whether \<open>time.NewTicker\<close> accepts the
  interval (it panics otherwise).
\<close>

definition pool_size :: "Config \<Rightarrow> nat" where
  "pool_size c = nat (sint (numWorkers c))"

definition queue_capacity :: "Config \<Rightarrow> nat option" where
  "queue_capacity c =
     (if sint (jobQueueSize c) < 0 then None else Some (nat (sint (jobQueueSize c))))"

definition ticker_ok :: "Config \<Rightarrow> bool" where
  "ticker_ok c \<longleftrightarrow> 0 < sint (probeInterval c)"

subsection \<open>Lemmas\<close>

lemma digit_value_digit_char: "d < 10 \<Longrightarrow> digit_value (digit_char d) = d"
  by (simp add: digit_value_def of_char_digit_char)

lemma dec_value_append: "dec_value (xs @ [c]) = 10 * dec_value xs + digit_value c"
  by (simp add: dec_value_def)

lemma dec_value_dec_nat: "dec_value (dec_nat n) = n"
proof (induction n rule: dec_nat.induct)
  case (1 n)
  show ?case
  proof (cases "n < 10")
    case True
    then show ?thesis
      by (simp add: dec_nat.simps [of n] digit_value_digit_char) (simp add: dec_value_def digit_value_digit_char)
  next
    case False
    with "1.IH" show ?thesis
      by (simp add: dec_nat.simps [of n] dec_value_append digit_value_digit_char)
  qed
qed

lemma sign_not_digit: "\<not> is_digit CHR ''-''" "\<not> is_digit CHR ''+''"
  by (simp_all add: is_digit_def)

lemma split_sign_digits:
  assumes "ds \<noteq> []" "\<forall>c \<in> set ds. is_digit c"
  shows "split_sign ds = (False, ds)"
  using assms sign_not_digit by (cases ds) auto

lemma Atoi_itoa:
  assumes "- (2 ^ 63) \<le> n" "n < 2 ^ 63"
  shows "Atoi (itoa n) = Some (word_of_int n)"
proof (cases "n < 0")
  case True
  then have "split_sign (itoa n) = (True, dec_nat (nat (- n)))"
    by (simp add: itoa_def)
  with True assms dec_nat_digits [of "nat (- n)"] show ?thesis
    by (simp add: Atoi_def list_all_iff dec_value_dec_nat)
next
  case False
  then have "split_sign (itoa n) = (False, dec_nat (nat n))"
    by (simp add: itoa_def split_sign_digits dec_nat_digits)
  with False assms dec_nat_digits [of "nat n"] show ?thesis
    by (simp add: Atoi_def list_all_iff dec_value_dec_nat)
qed

lemma sint_bounds: "- (2 ^ 63) \<le> sint (v :: go_int)" "sint (v :: go_int) < 2 ^ 63"
  using sint_ge [of v] sint_lt [of v] by simp_all

lemma sint_word_of_int_64:
  assumes "- (2 ^ 63) \<le> n" "n < 2 ^ 63"
  shows "sint (word_of_int n :: go_int) = n"
  using assms by (simp add: int_word_sint)

lemma word_times_Second:
  assumes "- (2 ^ 63) \<le> sint v * 1000000000" "sint v * 1000000000 < 2 ^ 63"
  shows "sint (v * Second) = sint v * 1000000000"
proof -
  have "v * Second = word_of_int (sint v * 1000000000)"
    by (simp add: Second_def)
  then show ?thesis using assms by (simp only: sint_word_of_int_64)
qed

subsection \<open>Properties\<close>

text \<open>
  A parameter is read exactly: a variable holding the decimal text of any 64-bit
  integer gives that integer, an unset or empty one the default, and so does every text
  that is not an optional sign followed by digits only or whose value does not fit.
\<close>

lemma getint_reads_exactly:
  "GetInt (env(name \<mapsto> itoa (sint v))) name d = v \<and>
   GetInt (env(name := None)) name d = d \<and>
   GetInt (env(name \<mapsto> s)) name d =
     (case split_sign s of (neg, ds) \<Rightarrow>
        (let n = (if neg then - int (dec_value ds) else int (dec_value ds)) in
         if ds \<noteq> [] \<and> list_all is_digit ds \<and> - (2 ^ 63) \<le> n \<and> n < 2 ^ 63
         then word_of_int n else d))"
proof -
  have "itoa (sint v) \<noteq> []"
    by (simp add: itoa_def)
  then have "GetInt (env(name \<mapsto> itoa (sint v))) name d = v"
    using sint_bounds [of v] by (simp add: GetInt_def get_string_def Atoi_itoa)
  moreover have "GetInt (env(name \<mapsto> s)) name d =
     (case split_sign s of (neg, ds) \<Rightarrow>
        (let n = (if neg then - int (dec_value ds) else int (dec_value ds)) in
         if ds \<noteq> [] \<and> list_all is_digit ds \<and> - (2 ^ 63) \<le> n \<and> n < 2 ^ 63
         then word_of_int n else d))"
    by (auto simp: GetInt_def get_string_def Atoi_def Let_def split: prod.splits)
  ultimately show ?thesis
    by (simp add: GetInt_def get_string_def)
qed

text \<open>
  C40. With a probe interval of 1 to 9223372036 seconds the interval is that many
  nanoseconds, without wrap-around, and the ticker accepts it. Zero and one second more do
  not reach a scheduler alive: the interval is zero or wraps to a negative one, and
  \<open>time.NewTicker\<close> panics.
\<close>

theorem interval_bounds:
  assumes "GetInt env ''PROBE_INTERVAL_SECONDS'' 2 = s"
  shows "(1 \<le> sint s \<and> sint s \<le> 9223372036 \<longrightarrow>
      sint (probeInterval (load_config env)) = sint s * 1000000000 \<and> ticker_ok (load_config env)) \<and>
    (s = 0 \<or> s = 9223372037 \<longrightarrow> \<not> ticker_ok (load_config env))"
proof -
  have p: "probeInterval (load_config env) = s * Second"
    using assms by (simp add: load_config_def Let_def)
  have "sint (s * Second) = sint s * 1000000000" if "1 \<le> sint s" "sint s \<le> 9223372036"
    using that by (intro word_times_Second) simp_all
  moreover have "sint ((9223372037 :: go_int) * Second) < 0" "sint ((0 :: go_int) * Second) = 0"
    by (simp_all add: Second_def)
  ultimately show ?thesis
    by (auto simp: ticker_ok_def p)
qed

theorem interval_bounds_witness:
  "sint (probeInterval (load_config [''PROBE_INTERVAL_SECONDS'' \<mapsto> ''15''])) = 15000000000"
proof -
  have "GetInt [''PROBE_INTERVAL_SECONDS'' \<mapsto> ''15''] ''PROBE_INTERVAL_SECONDS'' 2 = 15"
    by (simp add: GetInt_def get_string_def Atoi_def is_digit_def dec_value_def digit_value_def)
  from interval_bounds [OF this] show ?thesis by simp
qed

end
