(* ===== verification/Probers.thy ===== *)
theory Probers
  imports Metrics Url Registry Config
begin

section \<open>The protocol probers (http.go, tcp.go, dns.go, grpc.go, tls.go)\<close>

text \<open>
  Each prober turns a target into one or two network operations and their outcome into an
  error category. The operations themselves are the environment: the record \<open>network\<close>
  holds them as functions of the context (which carries the deadline and the moment). An
  operation that can fail returns \<open>Inl\<close> or \<open>Some\<close> of a Go error. \<open>status.FromError\<close> of
  the grpc library and the IPv6 test of \<open>netip.ParseAddr\<close> are further parameters.
  Closing connections and draining the response body have no result and are left out.
\<close>

datatype health_status = SERVING | NOT_SERVING | SERVICE_UNKNOWN | UNKNOWN

record 'pool tls_config =
  ServerName :: string
  SkipVerify :: bool               \<comment> \<open>\<open>InsecureSkipVerify\<close>\<close>
  RootCAs :: "'pool option"        \<comment> \<open>\<open>None\<close> stands for the host's pool\<close>

text \<open>\<open>http.Transport\<close>, with the fields the program sets; an \<open>http.Client\<close> is its transport.\<close>

record 'pool Transport =
  MaxIdleConns :: go_int
  MaxIdleConnsPerHost :: go_int
  IdleConnTimeout :: go_int
  TLSClientConfig :: "'pool tls_config option"

record ('ctx, 'pool) network =
  client_Do :: "'ctx \<Rightarrow> 'pool Transport \<Rightarrow> string \<Rightarrow> go_error + int"
    \<comment> \<open>GET with a client of that transport: the status code\<close>
  DialContext :: "'ctx \<Rightarrow> string \<Rightarrow> go_error option"
  LookupHost :: "'ctx \<Rightarrow> string \<Rightarrow> go_error option"
  HandshakeContext :: "'ctx \<Rightarrow> string \<Rightarrow> 'pool tls_config \<Rightarrow> go_error + int list"
    \<comment> \<open>on the connection to the address: time left of each peer certificate, in ns\<close>
  grpc_NewClient :: "string \<Rightarrow> go_error option"
  health_Check :: "'ctx \<Rightarrow> string \<Rightarrow> string \<Rightarrow> go_error + health_status"
  FromError :: "go_error \<Rightarrow> codes option"
  ParseAddr6 :: "string \<Rightarrow> bool"

text \<open>
  \<open>ProbeFunc\<close>: the category, and the calls on the metric vectors the probe makes.
\<close>

type_synonym 'ctx ProbeFunc = "'ctx \<Rightarrow> Target \<Rightarrow> ErrorCategory \<times> metric_call list"

subsection \<open>HTTP\<close>

record 'pool HTTPProber =
  defaultClient :: "'pool Transport"
  insecureClient :: "'pool Transport"

definition NewHTTPProber :: "'pool Transport \<Rightarrow> 'pool HTTPProber" where
  "NewHTTPProber baseTransport =
     (let insecure_cfg =
        (case TLSClientConfig baseTransport of
           None \<Rightarrow> \<lparr>ServerName = [], SkipVerify = True, RootCAs = None\<rparr>
         | Some cfg \<Rightarrow> cfg\<lparr>SkipVerify := True\<rparr>)
      in \<lparr>defaultClient = baseTransport,
          insecureClient = baseTransport\<lparr>TLSClientConfig := Some insecure_cfg\<rparr>\<rparr>)"

definition http_client :: "'pool HTTPProber \<Rightarrow> Target \<Rightarrow> 'pool Transport" where
  "http_client p target = (if InsecureSkipVerify target then insecureClient p else defaultClient p)"

definition http_address :: "Target \<Rightarrow> string" where
  "http_address target =
     (if \<not> HasPrefix (Address target) ''http://'' \<and> \<not> HasPrefix (Address target) ''https://''
      then Scheme target @ ''://'' @ Address target
      else Address target)"

text \<open>
  \<open>http.NewRequestWithContext\<close> with a valid method fails exactly when the URL does not
  parse.
\<close>

definition ProbeHTTPTarget :: "('ctx, 'pool) network \<Rightarrow> 'pool HTTPProber \<Rightarrow> 'ctx ProbeFunc" where
  "ProbeHTTPTarget net p ctx target =
     (let address = http_address target in
      if url_Parse (ParseAddr6 net) address = None then (CategoryUnknown, [])
      else
        (case client_Do net ctx (http_client p target) address of
           Inl err \<Rightarrow> (MapToCategory (FromError net) (Some err) 0, [])
         | Inr statusCode \<Rightarrow>
             if statusCode \<ge> 400 then (MapToCategory (FromError net) None statusCode, [])
             else ([], [])))"

subsection \<open>TCP and DNS\<close>

text \<open>The host part of an address that parsed to a URL, or the address without prefix.\<close>

definition strip_address :: "string \<Rightarrow> URL option \<Rightarrow> address \<Rightarrow> string" where
  "strip_address prefix parsedURL a =
     (case parsedURL of
        Some u \<Rightarrow> if URL_Host u \<noteq> [] then URL_Host u
                  else if HasPrefix a prefix then TrimPrefix a prefix else a
      | None \<Rightarrow> if HasPrefix a prefix then TrimPrefix a prefix else a)"

definition ProbeTCPTarget :: "('ctx, 'pool) network \<Rightarrow> 'ctx ProbeFunc" where
  "ProbeTCPTarget net ctx target =
     (case url_Parse (ParseAddr6 net) (Address target) of
        None \<Rightarrow> (CategoryUnknown, [])
      | Some parsedURL \<Rightarrow>
          (let host = strip_address ''tcp://'' (Some parsedURL) (Address target) in
           case DialContext net ctx host of
             Some err \<Rightarrow> (MapToCategory (FromError net) (Some err) 0, [])
           | None \<Rightarrow> ([], [])))"

definition dns_host :: "(string \<Rightarrow> bool) \<Rightarrow> address \<Rightarrow> string" where
  "dns_host ip6 a =
     (let host = strip_address ''dns://'' (url_Parse ip6 a) a in
      case SplitHostPort host of Some (h, _) \<Rightarrow> h | None \<Rightarrow> host)"

definition ProbeDNSTarget :: "('ctx, 'pool) network \<Rightarrow> 'ctx ProbeFunc" where
  "ProbeDNSTarget net ctx target =
     (case LookupHost net ctx (dns_host (ParseAddr6 net) (Address target)) of
        Some err \<Rightarrow> (MapToCategory (FromError net) (Some err) 0, [])
      | None \<Rightarrow> ([], []))"

subsection \<open>gRPC\<close>

text \<open>The address to connect to and the service name to ask for.\<close>

definition grpc_address :: "(string \<Rightarrow> bool) \<Rightarrow> address \<Rightarrow> string \<times> string" where
  "grpc_address ip6 a =
     (let rawAddress = (if \<not> Contains a ''://'' then ''grpc://'' @ a else a) in
      case url_Parse ip6 rawAddress of
        Some parsedURL \<Rightarrow>
          (if URL_Host parsedURL \<noteq> [] then URL_Host parsedURL else a,
           TrimPrefix (URL_Path parsedURL) ''/'')
      | None \<Rightarrow> (a, []))"

definition grpc_error_category :: "codes option \<Rightarrow> ErrorCategory" where
  "grpc_error_category st =
     (case st of
        Some NotFound \<Rightarrow> CategoryGRPCNotServing
      | Some Unavailable \<Rightarrow> CategoryConnectionRefused
      | Some DeadlineExceeded \<Rightarrow> CategoryTimeout
      | Some Unimplemented \<Rightarrow> []
      | _ \<Rightarrow> CategoryGRPCError)"

definition ProbeGRPCTarget :: "('ctx, 'pool) network \<Rightarrow> 'ctx ProbeFunc" where
  "ProbeGRPCTarget net ctx target =
     (let (address, serviceName) = grpc_address (ParseAddr6 net) (Address target) in
      case grpc_NewClient net address of
        Some err \<Rightarrow> (MapToCategory (FromError net) (Some err) 0, [])
      | None \<Rightarrow>
          (case health_Check net ctx address serviceName of
             Inl err \<Rightarrow> (grpc_error_category (FromError net err), [])
           | Inr status \<Rightarrow>
               if status \<noteq> SERVING then (CategoryGRPCNotServing, []) else ([], [])))"

subsection \<open>TLS\<close>

text \<open>
  The prober's configuration. Without a base configuration it holds the system's pool (an
  empty one when that cannot be loaded) with the cluster CA appended when its file can be
  read; \<open>systemPool\<close>, \<open>emptyPool\<close>, \<open>caCert\<close> and \<open>appendCerts\<close> are what crypto/x509 and os return.
\<close>

definition NewTLSProber ::
  "'pool tls_config option \<Rightarrow> 'pool option \<Rightarrow> 'pool \<Rightarrow> string option \<Rightarrow> (string \<Rightarrow> 'pool \<Rightarrow> 'pool)
    \<Rightarrow> 'pool tls_config" where
  "NewTLSProber baseCfg systemPool emptyPool caCert appendCerts =
     (case baseCfg of
        Some cfg \<Rightarrow> cfg
      | None \<Rightarrow>
          (let rootCAs = (case systemPool of Some p \<Rightarrow> p | None \<Rightarrow> emptyPool);
               rootCAs = (case caCert of Some pem \<Rightarrow> appendCerts pem rootCAs | None \<Rightarrow> rootCAs)
           in \<lparr>ServerName = [], SkipVerify = False, RootCAs = Some rootCAs\<rparr>))"

definition tls_address :: "(string \<Rightarrow> bool) \<Rightarrow> address \<Rightarrow> string" where
  "tls_address ip6 a =
     (let address = strip_address ''tls://'' (url_Parse ip6 a) a in
      if \<not> Contains address '':'' then address @ '':443'' else address)"

definition target_tls_config :: "'pool tls_config \<Rightarrow> string \<Rightarrow> Target \<Rightarrow> 'pool tls_config" where
  "target_tls_config config address target =
     (let host = (case SplitHostPort address of Some (h, _) \<Rightarrow> h | None \<Rightarrow> address);
          cfg = (if ServerName config = [] then config\<lparr>ServerName := host\<rparr> else config)
      in if InsecureSkipVerify target then cfg\<lparr>SkipVerify := True\<rparr> else cfg)"

definition days_remaining :: "int \<Rightarrow> real" where
  "days_remaining ns = real_of_int ns / 3600000000000 / 24"

definition ProbeTLSTarget :: "('ctx, 'pool) network \<Rightarrow> 'pool tls_config \<Rightarrow> 'ctx ProbeFunc" where
  "ProbeTLSTarget net config ctx target =
     (let address = tls_address (ParseAddr6 net) (Address target) in
      case DialContext net ctx address of
        Some err \<Rightarrow> (MapToCategory (FromError net) (Some err) 0, [])
      | None \<Rightarrow>
          (case HandshakeContext net ctx address (target_tls_config config address target) of
             Inl err \<Rightarrow> (MapToCategory (FromError net) (Some err) 0, [])
           | Inr [] \<Rightarrow> ([], [])
           | Inr (left # _) \<Rightarrow>
               ([], [MSet (TLSCertExpiryGauge, [Address target]) (days_remaining left)])))"

subsection \<open>What the dispatcher and the workers need of a prober\<close>

text \<open>
  Every result is success or a registered category (so its error series is one that
  \<open>DeleteTargetMetrics\<close> deletes), and the only metric a probe sets is its target's
  certificate expiry.
\<close>

definition expiry_only :: "address \<Rightarrow> metric_call list \<Rightarrow> bool" where
  "expiry_only a calls \<longleftrightarrow> list_all (\<lambda>c. \<exists>v. c = MSet (TLSCertExpiryGauge, [a]) v) calls"

lemma expiry_only_simps [simp]:
  "expiry_only a []"
  "expiry_only a (c # cs) \<longleftrightarrow> (\<exists>v. c = MSet (TLSCertExpiryGauge, [a]) v) \<and> expiry_only a cs"
  by (simp_all add: expiry_only_def)

lemma expiry_only_live:
  "expiry_only a calls \<Longrightarrow> live S calls \<subseteq> S \<union> target_series a"
proof (induction calls arbitrary: S)
  case (Cons c calls)
  then obtain v where c: "c = MSet (TLSCertExpiryGauge, [a]) v" by auto
  have "(TLSCertExpiryGauge, [a]) \<in> target_series a" by (simp add: target_series_def)
  with Cons.IH [of "insert (TLSCertExpiryGauge, [a]) S"] Cons.prems show ?case by (auto simp: c)
qed simp

lemma expiry_only_ok: "expiry_only a calls \<Longrightarrow> list_all call_ok calls"
  by (induction calls) auto

locale prober =
  fixes probe :: "'ctx ProbeFunc"
  assumes category_listed: "fst (probe ctx target) \<in> insert [] (set allCategories)"
    and expiry: "expiry_only (Address target) (snd (probe ctx target))"
begin

lemma own_series: "live S (snd (probe ctx target)) \<subseteq> S \<union> target_series (Address target)"
  by (rule expiry_only_live [OF expiry])

lemma calls_ok: "list_all call_ok (snd (probe ctx target))"
  by (rule expiry_only_ok [OF expiry])

lemma error_series_own:
  "fst (probe ctx target) \<noteq> [] \<Longrightarrow>
    (ErrorCounter, [Address target, fst (probe ctx target)]) \<in> target_series (Address target)"
  using category_listed [of ctx target] by (simp add: target_series_def)

end

lemma MapToCategory_in: "MapToCategory F err sc \<in> insert [] (set allCategories)"
  using MapToCategory_listed by auto

lemma grpc_error_category_in: "grpc_error_category st \<in> insert [] (set allCategories)"
  by (auto simp: grpc_error_category_def split: option.split codes.split)

interpretation http: prober "ProbeHTTPTarget net p"
  using MapToCategory_in
  by unfold_locales (auto simp: ProbeHTTPTarget_def Let_def split: sum.splits)

interpretation tcp: prober "ProbeTCPTarget net"
  using MapToCategory_in
  by unfold_locales (auto simp: ProbeTCPTarget_def Let_def split: option.splits)

interpretation dns: prober "ProbeDNSTarget net"
  using MapToCategory_in
  by unfold_locales (auto simp: ProbeDNSTarget_def Let_def split: option.splits)

interpretation grpc: prober "ProbeGRPCTarget net"
  using MapToCategory_in grpc_error_category_in
  by unfold_locales (auto simp: ProbeGRPCTarget_def Let_def split: option.splits sum.splits prod.splits)

interpretation tls: prober "ProbeTLSTarget net config"
  using MapToCategory_in
  by unfold_locales
    (auto simp: ProbeTLSTarget_def Let_def split: option.splits sum.splits list.splits)

subsection \<open>Addresses of discovered targets\<close>

lemma strip_address_host:
  "URL_Host u \<noteq> [] \<Longrightarrow> strip_address prefix (Some u) a = URL_Host u"
  by (simp add: strip_address_def)

lemma hostport_nonempty [simp]: "hostport h port \<noteq> []"
  by (simp add: hostport_def)

lemma itoa_digits: "0 \<le> n \<Longrightarrow> list_all is_digit (itoa n)"
  by (simp add: itoa_def list_all_iff dec_nat_digits)

lemma target_address_eq:
  "target_address scheme ip port path = scheme @ ''://'' @ hostport ip (itoa (sint port)) @ path"
  by (simp add: target_address_def hostport_def)

lemma Contains_hostport [simp]: "Contains (hostport h port) '':''"
  unfolding Contains_iff hostport_def by blast

lemma cut_last_app: "c \<notin> set v \<Longrightarrow> cut_last c (u @ c # v) = (u, v)"
proof -
  assume "c \<notin> set v"
  then have v: "\<And>x. x \<in> set (rev v) \<Longrightarrow> x \<noteq> c" by auto
  have "takeWhile (\<lambda>x. x \<noteq> c) (rev v @ c # rev u) = rev v @ takeWhile (\<lambda>x. x \<noteq> c) (c # rev u)"
    "dropWhile (\<lambda>x. x \<noteq> c) (rev v @ c # rev u) = dropWhile (\<lambda>x. x \<noteq> c) (c # rev u)"
    by (rule takeWhile_append2 [OF v], assumption, rule dropWhile_append2 [OF v], assumption)
  then show ?thesis by (simp add: cut_last_def)
qed

lemma SplitHostPort_hostport:
  assumes "plain_host h" "list_all is_digit port"
  shows "SplitHostPort (hostport h port) = Some (h, port)"
proof -
  have nin: "x \<notin> set h" if "x \<in> set ''[]:''" for x
    using that assms(1) hostname_char_props(3) [of x] by (auto simp: plain_host_def list_all_iff)
  have pin: "x \<notin> set port" if "x \<in> set ''[]:''" for x
    using that assms(2) hostname_char_props(3) [OF digit_hostname, of x] by (auto simp: list_all_iff)
  have "cut_last CHR '':'' (hostport h port) = (h, port)"
    using pin [of "CHR '':''"] by (simp add: hostport_def cut_last_app)
  moreover have "\<not> HasPrefix (hostport h port) ''[''"
    using nin [of "CHR ''[''"] assms(1)
    by (cases h) (auto simp: hostport_def HasPrefix_def plain_host_def)
  ultimately show ?thesis
    using nin pin by (simp add: SplitHostPort_def hostport_def)
qed

text \<open>
  C28. What is discovered is what is probed: for an address the registry builds from an
  EndpointSlice (a lower-case scheme, an IPv4 address or host name, a port that is not
  negative, a path without reserved characters), the TCP and TLS probers dial exactly
  ip:port, the TLS prober verifies the name ip unless the target opts out, the DNS prober
  resolves ip, and the gRPC prober connects to ip:port and asks for the path without its
  leading slash as the service.
\<close>

theorem discovered_address_dials_back:
  assumes "lower_word scheme" "plain_host ip" "0 \<le> sint port" "plain_path path"
  shows "let a = target_address scheme ip port path; hp = ip @ '':'' @ itoa (sint port)
    in strip_address ''tcp://'' (url_Parse ip6 a) a = hp \<and>
       tls_address ip6 a = hp \<and>
       (let cfg = target_tls_config (NewTLSProber None systemPool emptyPool caCert appendCerts) hp target
        in ServerName cfg = ip \<and> SkipVerify cfg = InsecureSkipVerify target) \<and>
       dns_host ip6 a = ip \<and>
       grpc_address ip6 a = (hp, TrimPrefix path ''/'')"
proof -
  let ?port = "itoa (sint port)"
  let ?a = "target_address scheme ip port path"
  have digits: "list_all is_digit ?port" using assms(3) by (rule itoa_digits)
  have parse: "url_Parse ip6 ?a = Some \<lparr>URL_Scheme = scheme, URL_Host = hostport ip ?port, URL_Path = path\<rparr>"
    unfolding target_address_eq by (rule url_Parse_hostport [OF assms(1,2) digits assms(4)])
  have strip: "strip_address prefix (url_Parse ip6 ?a) ?a = hostport ip ?port" for prefix
    by (simp add: parse strip_address_host)
  have "Contains ?a ''://''"
    unfolding Contains_iff target_address_def by blast
  then have "grpc_address ip6 ?a = (hostport ip ?port, TrimPrefix path ''/'')"
    by (simp add: grpc_address_def parse)
  moreover have "dns_host ip6 ?a = ip"
    using SplitHostPort_hostport [OF assms(2) digits] by (simp add: dns_host_def strip)
  moreover have "tls_address ip6 ?a = hostport ip ?port"
    by (simp add: tls_address_def strip)
  moreover have "ServerName (target_tls_config (NewTLSProber None systemPool emptyPool caCert appendCerts)
        (hostport ip ?port) target) = ip"
      "SkipVerify (target_tls_config (NewTLSProber None systemPool emptyPool caCert appendCerts)
        (hostport ip ?port) target) = InsecureSkipVerify target"
    using SplitHostPort_hostport [OF assms(2) digits]
    by (simp_all add: target_tls_config_def NewTLSProber_def Let_def)
  ultimately show ?thesis
    using strip by (simp add: Let_def hostport_def)
qed

theorem discovered_address_dials_back_witness:
  "grpc_address (\<lambda>_. True) (target_address ''grpc'' ''10.1.0.1'' 8080 ''/healthz'')
    = (''10.1.0.1:8080'', ''healthz'')"
proof -
  have "lower_word ''grpc''" "plain_host ''10.1.0.1''" "plain_path ''/healthz''"
    by (simp_all add: lower_word_def plain_host_def hostname_char_def is_digit_def plain_path_def
        HasPrefix_def is_ctl_def)
  from discovered_address_dials_back [OF this(1,2) _ this(3), of 8080 "\<lambda>_. True"
      "None :: unit option" "()" None "\<lambda>_ p. p" zero_Target]
  show ?thesis by (simp add: Let_def itoa_eval TrimPrefix_def HasPrefix_def)
qed


subsection \<open>Success and failure\<close>

lemma MapToCategory_error:
  "F e \<noteq> Some OK \<Longrightarrow> MapToCategory F (Some e) sc \<noteq> []"
  by (auto simp: MapToCategory_def status_category_empty split: option.splits)

lemma grpc_error_category_empty: "grpc_error_category st = [] \<longleftrightarrow> st = Some Unimplemented"
  by (auto simp: grpc_error_category_def split: option.split codes.split)


text \<open>A network in which everything answers, for the witnesses.\<close>

definition ex_transport :: "unit Transport" where
  "ex_transport = \<lparr>MaxIdleConns = 1000, MaxIdleConnsPerHost = 100, IdleConnTimeout = 90 * Second,
     TLSClientConfig = None\<rparr>"

definition ex_network :: "(unit, unit) network" where
  "ex_network = \<lparr>client_Do = (\<lambda>_ _ _. Inr 200), DialContext = (\<lambda>_ _. None), LookupHost = (\<lambda>_ _. None),
     HandshakeContext = (\<lambda>_ _ _. Inr [86400000000000]), grpc_NewClient = (\<lambda>_. None),
     health_Check = (\<lambda>_ _ _. Inr NOT_SERVING), FromError = ex_FromError, ParseAddr6 = (\<lambda>_. True)\<rparr>"

definition ex_net_FromError :: "go_error \<Rightarrow> codes option" where
  "ex_net_FromError e = (case ex_FromError e of Some OK \<Rightarrow> None | c \<Rightarrow> c)"



end
