(* ===== verification/Dispatcher.thy ===== *)
theory Dispatcher
  imports Probers Channels Config
begin

section \<open>The dispatcher (pkg/prober/dispatcher.go)\<close>

text \<open>
  The map from schemes to probe functions and the counting semaphore, a channel of
  tokens. \<open>Execute\<close> is split where other goroutines can run in between: waiting for a
  token (a \<open>select\<close>, as the list of its ready outcomes), the dispatch itself, and the
  deferred release. The read-write lock of the map makes each access atomic.
\<close>

record 'ctx Dispatcher =
  probers :: "string \<rightharpoonup> 'ctx ProbeFunc"
  sem :: "unit chan option"        \<comment> \<open>\<open>None\<close> is the nil channel\<close>

definition NewDispatcher :: "go_int \<Rightarrow> 'ctx Dispatcher" where
  "NewDispatcher maxConcurrency =
     \<lparr>probers = Map.empty,
      sem = (if 0 < sint maxConcurrency then Some (make_chan (nat (sint maxConcurrency))) else None)\<rparr>"

definition Register :: "string \<Rightarrow> 'ctx ProbeFunc \<Rightarrow> 'ctx Dispatcher \<Rightarrow> 'ctx Dispatcher" where
  "Register scheme fn d = d\<lparr>probers := (probers d)(scheme \<mapsto> fn)\<rparr>"

subsection \<open>Execute\<close>

datatype 'ctx acquire_result = Token "'ctx Dispatcher" | NoSemaphore | AcquireCtxDone

definition acquire :: "bool \<Rightarrow> 'ctx Dispatcher \<Rightarrow> 'ctx acquire_result list" where
  "acquire ctx_done d =
     (case sem d of
        None \<Rightarrow> [NoSemaphore]
      | Some ch \<Rightarrow>
          (case chan_send ch () of
             Sent ch' \<Rightarrow> [Token (d\<lparr>sem := Some ch'\<rparr>)] | SendBlocks \<Rightarrow> [] | SendPanics \<Rightarrow> [])
          @ (if ctx_done then [AcquireCtxDone] else []))"

definition release :: "'ctx Dispatcher \<Rightarrow> 'ctx Dispatcher option" where
  "release d =
     (case sem d of
        None \<Rightarrow> None
      | Some ch \<Rightarrow>
          (case chan_recv ch of Received _ ch' \<Rightarrow> Some (d\<lparr>sem := Some ch'\<rparr>) | _ \<Rightarrow> None))"

text \<open>Which probe function serves a target: by its scheme, else by its address.\<close>

definition resolve :: "(string \<Rightarrow> bool) \<Rightarrow> 'ctx Dispatcher \<Rightarrow> Target \<Rightarrow> 'ctx ProbeFunc option" where
  "resolve ip6 d target =
     (case probers d (Scheme target) of
        Some fn \<Rightarrow> Some fn
      | None \<Rightarrow>
          (case url_Parse ip6 (Address target) of
             Some parsedURL \<Rightarrow>
               if URL_Scheme parsedURL \<noteq> [] then probers d (URL_Scheme parsedURL) else None
           | None \<Rightarrow> None))"

definition dispatch ::
  "(string \<Rightarrow> bool) \<Rightarrow> 'ctx Dispatcher \<Rightarrow> 'ctx \<Rightarrow> Target \<Rightarrow> ErrorCategory \<times> metric_call list" where
  "dispatch ip6 d ctx target =
     (case resolve ip6 d target of None \<Rightarrow> (CategoryUnknown, []) | Some fn \<Rightarrow> fn ctx target)"

text \<open>
  The whole of \<open>Execute\<close> when nothing runs in between: its possible results, none when it
  blocks.
\<close>

definition Execute ::
  "(string \<Rightarrow> bool) \<Rightarrow> bool \<Rightarrow> 'ctx \<Rightarrow> Target \<Rightarrow> 'ctx Dispatcher \<Rightarrow>
    ('ctx Dispatcher \<times> ErrorCategory \<times> metric_call list) list" where
  "Execute ip6 ctx_done ctx target d =
     concat (map (\<lambda>res.
       case res of
         NoSemaphore \<Rightarrow> [(d, dispatch ip6 d ctx target)]
       | AcquireCtxDone \<Rightarrow> [(d, CategoryTimeout, [])]
       | Token d' \<Rightarrow>
           (case release d' of
              Some d'' \<Rightarrow> [(d'', dispatch ip6 d' ctx target)] | None \<Rightarrow> []))
       (acquire ctx_done d))"

subsection \<open>The dispatcher of main\<close>

definition main_dispatcher ::
  "('ctx, 'pool) network \<Rightarrow> 'pool Transport \<Rightarrow> 'pool tls_config \<Rightarrow> go_int \<Rightarrow> 'ctx Dispatcher" where
  "main_dispatcher net baseTransport tlsCfg maxProbes =
     Register ''dns'' (ProbeDNSTarget net)
    (Register ''grpc'' (ProbeGRPCTarget net)
    (Register ''tls'' (ProbeTLSTarget net tlsCfg)
    (Register ''tcp'' (ProbeTCPTarget net)
    (Register ''https'' (ProbeHTTPTarget net (NewHTTPProber baseTransport))
    (Register ''http'' (ProbeHTTPTarget net (NewHTTPProber baseTransport))
    (NewDispatcher maxProbes))))))"

subsection \<open>Lemmas\<close>

definition tokens :: "'ctx Dispatcher \<Rightarrow> nat" where
  "tokens d = (case sem d of None \<Rightarrow> 0 | Some ch \<Rightarrow> length (buf ch))"

definition sem_ok :: "'ctx Dispatcher \<Rightarrow> bool" where
  "sem_ok d \<longleftrightarrow> (case sem d of None \<Rightarrow> True | Some ch \<Rightarrow> chan_ok ch \<and> \<not> closed ch)"

lemma acquire_Token:
  "Token d' \<in> set (acquire b d) \<longleftrightarrow>
    (\<exists>ch. sem d = Some ch \<and> \<not> closed ch \<and> length (buf ch) < cap ch \<and>
      d' = d\<lparr>sem := Some (ch\<lparr>buf := buf ch @ [()]\<rparr>)\<rparr>)"
  by (auto simp: acquire_def chan_send_def split: option.splits send_result.splits if_splits)

lemma acquire_other:
  "NoSemaphore \<in> set (acquire b d) \<longleftrightarrow> sem d = None"
  "AcquireCtxDone \<in> set (acquire b d) \<longleftrightarrow> sem d \<noteq> None \<and> b"
  by (auto simp: acquire_def split: option.splits send_result.splits)

lemma release_Some:
  "release d = Some d' \<longleftrightarrow>
    (\<exists>ch xs u. sem d = Some ch \<and> buf ch = u # xs \<and> d' = d\<lparr>sem := Some (ch\<lparr>buf := xs\<rparr>)\<rparr>)"
  by (auto simp: release_def chan_recv_def split: option.splits list.splits)

lemma acquire_tokens:
  "Token d' \<in> set (acquire b d) \<Longrightarrow> sem_ok d \<Longrightarrow>
    tokens d' = Suc (tokens d) \<and> sem_ok d' \<and> probers d' = probers d"
  by (auto simp: acquire_Token tokens_def sem_ok_def chan_ok_def)

lemma release_tokens:
  "release d = Some d' \<Longrightarrow> sem_ok d \<Longrightarrow>
    tokens d = Suc (tokens d') \<and> sem_ok d' \<and> probers d' = probers d"
  by (auto simp: release_Some tokens_def sem_ok_def chan_ok_def)

lemma release_possible: "0 < tokens d \<Longrightarrow> \<exists>d'. release d = Some d'"
  by (cases "sem d") (auto simp: tokens_def release_Some neq_Nil_conv)

lemma acquire_release:
  assumes "Token d' \<in> set (acquire b d)"
  shows "\<exists>d''. release d' = Some d'' \<and> probers d'' = probers d \<and> tokens d'' = tokens d"
proof -
  obtain ch where ch: "sem d = Some ch" "d' = d\<lparr>sem := Some (ch\<lparr>buf := buf ch @ [()]\<rparr>)\<rparr>"
    using assms by (auto simp: acquire_Token)
  obtain u xs where "buf ch @ [()] = u # xs" by (cases "buf ch @ [()]") auto
  then have "release d' = Some (d\<lparr>sem := Some (ch\<lparr>buf := xs\<rparr>)\<rparr>)" "length xs = length (buf ch)"
    using ch by (auto simp: release_Some) (metis length_Cons length_append_singleton Suc_inject)
  then show ?thesis using ch by (auto simp: tokens_def)
qed

lemma resolve_probers: "probers d = probers d' \<Longrightarrow> resolve ip6 d t = resolve ip6 d' t"
  by (auto simp: resolve_def split: option.split)

lemma dispatch_probers: "probers d = probers d' \<Longrightarrow> dispatch ip6 d ctx t = dispatch ip6 d' ctx t"
  using resolve_probers [of d d' ip6 t] by (simp add: dispatch_def)

text \<open>Dispatching over probers is a prober: the contract is closed under it.\<close>

definition all_probers :: "'ctx Dispatcher \<Rightarrow> bool" where
  "all_probers d \<longleftrightarrow> (\<forall>fn \<in> ran (probers d). prober fn)"

lemma all_probers_New: "all_probers (NewDispatcher n)"
  by (simp add: all_probers_def NewDispatcher_def)

lemma all_probers_Register: "all_probers d \<Longrightarrow> prober fn \<Longrightarrow> all_probers (Register s fn d)"
  by (auto simp: all_probers_def Register_def ran_def)

lemma resolve_registered: "resolve ip6 d t = Some fn \<Longrightarrow> fn \<in> ran (probers d)"
  by (auto simp: resolve_def ran_def split: option.splits if_splits)

lemma prober_dispatch:
  assumes "all_probers d"
  shows "prober (dispatch ip6 d)"
proof
  fix ctx t
  have "prober fn" if "resolve ip6 d t = Some fn" for fn
    using assms resolve_registered [OF that] by (simp add: all_probers_def)
  note fn = prober.category_listed [OF this] prober.expiry [OF this]
  show "fst (dispatch ip6 d ctx t) \<in> insert [] (set allCategories)"
    using fn(1) by (simp add: dispatch_def split: option.split)
  show "expiry_only (Address t) (snd (dispatch ip6 d ctx t))"
    using fn(2) by (simp add: dispatch_def split: option.split)
qed

lemma all_probers_main: "all_probers (main_dispatcher net tr cfg n)"
  unfolding main_dispatcher_def
  by (intro all_probers_Register all_probers_New dns.prober_axioms grpc.prober_axioms
      tls.prober_axioms tcp.prober_axioms http.prober_axioms)

interpretation main_dispatch: prober "dispatch ip6 (main_dispatcher net tr cfg n)"
  by (rule prober_dispatch [OF all_probers_main])

subsection \<open>Properties\<close>

lemma Execute_cases:
  assumes "(d', r) \<in> set (Execute ip6 b ctx t d)"
  obtains "sem d = None" "d' = d" "r = dispatch ip6 d ctx t"
    | d1 where "Token d1 \<in> set (acquire b d)" "release d1 = Some d'" "r = dispatch ip6 d1 ctx t"
    | "sem d \<noteq> None" "b" "d' = d" "r = (CategoryTimeout, [])"
proof -
  obtain res where res: "res \<in> set (acquire b d)"
    "(d', r) \<in> set (case res of
         NoSemaphore \<Rightarrow> [(d, dispatch ip6 d ctx t)]
       | AcquireCtxDone \<Rightarrow> [(d, CategoryTimeout, [])]
       | Token d1 \<Rightarrow> (case release d1 of Some d'' \<Rightarrow> [(d'', dispatch ip6 d1 ctx t)] | None \<Rightarrow> []))"
    using assms by (auto simp: Execute_def)
  show thesis
  proof (cases res)
    case (Token d1)
    with res that(2) show thesis by (auto split: option.splits)
  next
    case NoSemaphore
    with res that(1) acquire_other(1) [of b d] show thesis by auto
  next
    case AcquireCtxDone
    with res that(3) acquire_other(2) [of b d] show thesis by auto
  qed
qed

lemma Execute_blocks:
  assumes "sem_ok d"
  shows "Execute ip6 b ctx t d = [] \<longleftrightarrow> \<not> b \<and> (\<exists>ch. sem d = Some ch \<and> cap ch \<le> length (buf ch))"
proof -
  have "acquire b d = [] \<longleftrightarrow> \<not> b \<and> (\<exists>ch. sem d = Some ch \<and> cap ch \<le> length (buf ch))"
    using assms by (auto simp: acquire_def chan_send_def sem_ok_def split: option.splits)
  moreover have "Execute ip6 b ctx t d = [] \<longleftrightarrow> acquire b d = []"
  proof
    assume e: "Execute ip6 b ctx t d = []"
    show "acquire b d = []"
    proof (rule ccontr)
      assume "acquire b d \<noteq> []"
      then obtain res where "res \<in> set (acquire b d)" by (cases "acquire b d") auto
      with e acquire_release [of _ b d] show False
        by (cases res) (force simp: Execute_def)+
    qed
  qed (simp add: Execute_def)
  ultimately show ?thesis by simp
qed


definition ex_dispatcher :: "unit Dispatcher" where
  "ex_dispatcher = main_dispatcher ex_network ex_transport (NewTLSProber None None () None (\<lambda>_ p. p)) 1"

lemma ex_dispatcher_fields:
  "sem ex_dispatcher = Some (make_chan 1)"
  "probers ex_dispatcher ''tcp'' = Some (ProbeTCPTarget ex_network)"
  "probers ex_dispatcher ''grpc'' = Some (ProbeGRPCTarget ex_network)"
  "probers ex_dispatcher ''ftp'' = None"
  by (simp_all add: ex_dispatcher_def main_dispatcher_def Register_def NewDispatcher_def)


end
