(* ===== verification/Machines.thy ===== *)
theory Machines
  imports Prelude
begin

section \<open>Machines: steps, reachable states and simulations\<close>

text \<open>
  The program's concurrent parts are step relations with the states they reach. What such a
  pair shares is proved once here: runs compose, and what every step keeps holds in every
  state reached. A simulation maps the states of one machine to those of another so that
  every step becomes a run; then whatever holds in all states of the second holds in the images.
\<close>

locale machine =
  fixes step :: "'s \<Rightarrow> 's \<Rightarrow> bool"
    and reach :: "'s \<Rightarrow> 's \<Rightarrow> bool"
  assumes reach_runs: "reach s t \<longleftrightarrow> step\<^sup>*\<^sup>* s t"
begin

lemma reach_refl: "reach s s"
  by (simp add: reach_runs)

lemma reach_step: "reach s t \<Longrightarrow> step t u \<Longrightarrow> reach s u"
  by (simp add: reach_runs)

lemma reach_one: "step s t \<Longrightarrow> reach s t"
  by (simp add: reach_runs r_into_rtranclp)

lemma reach_trans: "reach s t \<Longrightarrow> reach t u \<Longrightarrow> reach s u"
  unfolding reach_runs by (rule rtranclp_trans)

text \<open>The induction rule of every invariant: it may use one established before.\<close>

lemma reach_invariant:
  assumes "reach s t" "P s" "\<And>u v. reach s u \<Longrightarrow> P u \<Longrightarrow> step u v \<Longrightarrow> P v"
  shows "P t"
  using assms(1) unfolding reach_runs
proof (induction rule: rtranclp_induct)
  case base
  show ?case by (rule assms(2))
next
  case (step u v)
  then show ?case using assms(3) by (simp add: reach_runs)
qed

end

locale simulation =
  concrete: machine cstep creach + abstract: machine astep areach
  for cstep creach :: "'c \<Rightarrow> 'c \<Rightarrow> bool" and astep areach :: "'a \<Rightarrow> 'a \<Rightarrow> bool" +
  fixes abs :: "'c \<Rightarrow> 'a"
    and inv :: "'c \<Rightarrow> bool"
  assumes inv_step: "inv c \<Longrightarrow> cstep c c' \<Longrightarrow> inv c'"
    and sim_step: "inv c \<Longrightarrow> cstep c c' \<Longrightarrow> areach (abs c) (abs c')"
begin

lemma inv_reach: "creach c c' \<Longrightarrow> inv c \<Longrightarrow> inv c'"
  by (erule concrete.reach_invariant) (auto intro: inv_step)

lemma simulates:
  assumes "creach c c'" "inv c"
  shows "areach (abs c) (abs c')"
  using assms(1)
proof (rule concrete.reach_invariant)
  show "areach (abs c) (abs c)" by (rule abstract.reach_refl)
next
  fix u v
  assume "creach c u" "areach (abs c) (abs u)" "cstep u v"
  then show "areach (abs c) (abs v)"
    using inv_reach assms(2) by (blast intro: abstract.reach_trans sim_step)
qed

end

end
