(* ===== verification/Worker.thy ===== *)
theory Worker
  imports Dispatcher Machines
begin

section \<open>Workers and target schedulers (pkg/prober/worker.go)\<close>

text \<open>
  A worker takes jobs from the queue and probes them; a scheduler puts a job for its target
  into the queue on every tick. Both are goroutines: their local state is a control state
  below, and a step relation says how it moves together with the state they share, which is
  the job queue, the dispatcher and the log of metric calls. One step is one operation that
  other goroutines can observe (a committed \<open>select\<close>, the dispatch, the deferred calls).
\<close>

subsection \<open>ProbeTarget\<close>

definition probe_begin :: "Target \<Rightarrow> metric_call list" where
  "probe_begin target = [MInc (SaturationGauge, []), MInc (TrafficCounter, [Address target])]"

definition probe_end :: "Target \<Rightarrow> real \<Rightarrow> ErrorCategory \<Rightarrow> metric_call list" where
  "probe_end target duration errCat =
     [MObserve (LatencyHistogram, [Address target]) duration] @
     (if errCat \<noteq> [] then [MInc (ErrorCounter, [Address target, errCat])] else []) @
     [MDec (SaturationGauge, [])]"

text \<open>
  The whole call, for a probe context and a measured duration, when nothing runs in
  between: the possible dispatchers and logs, as for \<open>Execute\<close>.
\<close>

definition ProbeTarget ::
  "(string \<Rightarrow> bool) \<Rightarrow> bool \<Rightarrow> 'ctx \<Rightarrow> real \<Rightarrow> Target \<Rightarrow> 'ctx Dispatcher \<Rightarrow>
    ('ctx Dispatcher \<times> metric_call list) list" where
  "ProbeTarget ip6 probeCtx_done probeCtx duration target d =
     map (\<lambda>(d', errCat, calls). (d', probe_begin target @ calls @ probe_end target duration errCat))
       (Execute ip6 probeCtx_done probeCtx target d)"

subsection \<open>The worker\<close>

record 'ctx shared =
  jobs :: "Job chan"
  disp :: "'ctx Dispatcher"
  log :: "metric_call list"

datatype worker = Idle | Acquiring Target | Probing Target bool | Exited

text \<open>
  \<open>Acquiring\<close> is inside \<open>ProbeTarget\<close> before the \<open>select\<close> of \<open>Execute\<close>; \<open>Probing\<close> is
  after it, holding a token or not. The probe context is derived from the worker's and has a
  deadline of its own, so it is done whenever the worker's is and may be done at any moment.
\<close>

inductive worker_step ::
  "(string \<Rightarrow> bool) \<Rightarrow> bool \<Rightarrow> worker \<times> 'ctx shared \<Rightarrow> worker \<times> 'ctx shared \<Rightarrow> bool"
  for ip6 ctx_done where
  w_cancelled: "ctx_done \<Longrightarrow> worker_step ip6 ctx_done (Idle, s) (Exited, s)"
| w_closed: "chan_recv (jobs s) = RecvClosed \<Longrightarrow> worker_step ip6 ctx_done (Idle, s) (Exited, s)"
| w_take: "chan_recv (jobs s) = Received job ch \<Longrightarrow>
    worker_step ip6 ctx_done (Idle, s)
      (Acquiring (job_target job), s\<lparr>jobs := ch, log := log s @ probe_begin (job_target job)\<rparr>)"
| w_token: "Token d \<in> set (acquire probeCtx_done (disp s)) \<Longrightarrow>
    worker_step ip6 ctx_done (Acquiring t, s) (Probing t True, s\<lparr>disp := d\<rparr>)"
| w_no_sem: "NoSemaphore \<in> set (acquire probeCtx_done (disp s)) \<Longrightarrow>
    worker_step ip6 ctx_done (Acquiring t, s) (Probing t False, s)"
| w_timeout: "AcquireCtxDone \<in> set (acquire probeCtx_done (disp s)) \<Longrightarrow> 0 \<le> duration \<Longrightarrow>
    worker_step ip6 ctx_done (Acquiring t, s)
      (Idle, s\<lparr>log := log s @ probe_end t duration CategoryTimeout\<rparr>)"
| w_done: "dispatch ip6 (disp s) probeCtx t = (errCat, calls) \<Longrightarrow> 0 \<le> duration \<Longrightarrow>
    (if token then release (disp s) = Some d else d = disp s) \<Longrightarrow>
    worker_step ip6 ctx_done (Probing t token, s)
      (Idle, s\<lparr>disp := d, log := log s @ calls @ probe_end t duration errCat\<rparr>)"

subsection \<open>The target scheduler\<close>

datatype enqueue_result = Enqueued "Job chan" | EnqCtxDone | ErrJobDropped | EnqPanic

text \<open>
  The \<open>select\<close> with a \<open>default\<close>: the ready cases, or the default when none is.
\<close>

definition enqueue :: "bool \<Rightarrow> Target \<Rightarrow> Job chan \<Rightarrow> enqueue_result list" where
  "enqueue ctx_done target ch =
     (let ready =
        (case chan_send ch \<lparr>job_target = target\<rparr> of
           Sent ch' \<Rightarrow> [Enqueued ch'] | SendBlocks \<Rightarrow> [] | SendPanics \<Rightarrow> [EnqPanic])
        @ (if ctx_done then [EnqCtxDone] else [])
      in if ready = [] then [ErrJobDropped] else ready)"

datatype sched = Fresh | Waiting | Stopped | Panicked

text \<open>
  What a scheduler does with a result: the job is in the queue, or the drop is counted, and
  it goes on waiting for ticks; it returns when the context is done. The initial probe and
  the ticks treat the results alike.
\<close>

fun after_enqueue :: "Target \<Rightarrow> enqueue_result \<Rightarrow> 'ctx shared \<Rightarrow> sched \<times> 'ctx shared" where
  "after_enqueue target (Enqueued ch) s = (Waiting, s\<lparr>jobs := ch\<rparr>)"
| "after_enqueue target ErrJobDropped s =
     (Waiting, s\<lparr>log := log s @ [MInc (DroppedProbesTotal, [Address target])]\<rparr>)"
| "after_enqueue target EnqCtxDone s = (Stopped, s)"
| "after_enqueue target EnqPanic s = (Panicked, s)"

text \<open>The argument \<open>interval_ok\<close> is whether \<open>time.NewTicker\<close> accepts the interval.\<close>

inductive sched_step ::
  "bool \<Rightarrow> bool \<Rightarrow> Target \<Rightarrow> sched \<times> 'ctx shared \<Rightarrow> sched \<times> 'ctx shared \<Rightarrow> bool"
  for interval_ok ctx_done target where
  s_ticker: "\<not> interval_ok \<Longrightarrow> sched_step interval_ok ctx_done target (Fresh, s) (Panicked, s)"
| s_first: "interval_ok \<Longrightarrow> r \<in> set (enqueue ctx_done target (jobs s)) \<Longrightarrow>
    sched_step interval_ok ctx_done target (Fresh, s) (after_enqueue target r s)"
| s_tick: "r \<in> set (enqueue ctx_done target (jobs s)) \<Longrightarrow>
    sched_step interval_ok ctx_done target (Waiting, s) (after_enqueue target r s)"
| s_stop: "ctx_done \<Longrightarrow> sched_step interval_ok ctx_done target (Waiting, s) (Stopped, s)"

text \<open>
  On an unbuffered queue a scheduler's send can be handed over to a worker that waits in its
  \<open>select\<close>; both go on at once, and the job is never in a buffer.
\<close>

definition handoff_ready :: "bool \<Rightarrow> sched \<Rightarrow> 'ctx shared \<Rightarrow> bool" where
  "handoff_ready interval_ok c s \<longleftrightarrow>
     cap (jobs s) = 0 \<and> \<not> closed (jobs s) \<and> (c = Fresh \<and> interval_ok \<or> c = Waiting)"

inductive_cases worker_stepE: "worker_step ip6 b (w, s) (w', s')"
inductive_cases sched_stepE: "sched_step ok b t (c, s) (c', s')"

subsection \<open>The pool: many workers, many schedulers, one queue\<close>

text \<open>
  A configuration of goroutines over the shared state: the workers, the schedulers with
  their targets, and which contexts are done. A step is a step of one goroutine, the start of
  a scheduler, a job handed over directly, the cancellation of one scheduler, that of
  everything (the parent context), the closing of the queue, or the deletion of series by the metrics cleaner.
\<close>

record sched_proc =
  sp_target :: Target
  sp_ctl :: sched
  sp_cancelled :: bool

record 'ctx pool =
  pool_workers :: "worker list"
  pool_scheds :: "sched_proc list"
  pool_done :: bool
  pool_shared :: "'ctx shared"

definition start_pool :: "nat \<Rightarrow> nat \<Rightarrow> 'ctx Dispatcher \<Rightarrow> 'ctx pool" where
  "start_pool workers queue d =
     \<lparr>pool_workers = replicate workers Idle, pool_scheds = [], pool_done = False,
      pool_shared = \<lparr>jobs = make_chan queue, disp = d, log = []\<rparr>\<rparr>"

inductive pool_step :: "(string \<Rightarrow> bool) \<Rightarrow> bool \<Rightarrow> 'ctx pool \<Rightarrow> 'ctx pool \<Rightarrow> bool"
  for ip6 interval_ok where
  p_worker: "i < length (pool_workers p) \<Longrightarrow>
    worker_step ip6 (pool_done p) (pool_workers p ! i, pool_shared p) (w, s) \<Longrightarrow>
    pool_step ip6 interval_ok p (p\<lparr>pool_workers := (pool_workers p)[i := w], pool_shared := s\<rparr>)"
| p_sched: "i < length (pool_scheds p) \<Longrightarrow> pool_scheds p ! i = sp \<Longrightarrow>
    sched_step interval_ok (pool_done p \<or> sp_cancelled sp) (sp_target sp)
      (sp_ctl sp, pool_shared p) (c, s) \<Longrightarrow>
    pool_step ip6 interval_ok p
      (p\<lparr>pool_scheds := (pool_scheds p)[i := sp\<lparr>sp_ctl := c\<rparr>], pool_shared := s\<rparr>)"
| p_handoff: "i < length (pool_workers p) \<Longrightarrow> pool_workers p ! i = Idle \<Longrightarrow>
    j < length (pool_scheds p) \<Longrightarrow> pool_scheds p ! j = sp \<Longrightarrow>
    handoff_ready interval_ok (sp_ctl sp) (pool_shared p) \<Longrightarrow>
    pool_step ip6 interval_ok p
      (p\<lparr>pool_workers := (pool_workers p)[i := Acquiring (sp_target sp)],
         pool_scheds := (pool_scheds p)[j := sp\<lparr>sp_ctl := Waiting\<rparr>],
         pool_shared := (pool_shared p)\<lparr>log := log (pool_shared p) @ probe_begin (sp_target sp)\<rparr>\<rparr>)"
| p_start: "pool_step ip6 interval_ok p
      (p\<lparr>pool_scheds := pool_scheds p @ [\<lparr>sp_target = t, sp_ctl = Fresh, sp_cancelled = False\<rparr>]\<rparr>)"
| p_cancel: "i < length (pool_scheds p) \<Longrightarrow>
    pool_step ip6 interval_ok p
      (p\<lparr>pool_scheds := (pool_scheds p)[i := (pool_scheds p ! i)\<lparr>sp_cancelled := True\<rparr>]\<rparr>)"
| p_cancel_all: "pool_step ip6 interval_ok p (p\<lparr>pool_done := True\<rparr>)"
| p_close: "chan_close (jobs (pool_shared p)) = Some ch \<Longrightarrow>
    pool_step ip6 interval_ok p (p\<lparr>pool_shared := (pool_shared p)\<lparr>jobs := ch\<rparr>\<rparr>)"
| p_purge: "pool_step ip6 interval_ok p
      (p\<lparr>pool_shared := (pool_shared p)\<lparr>log := log (pool_shared p) @ DeleteTargetMetrics a\<rparr>\<rparr>)"

inductive pool_reachable ::
  "(string \<Rightarrow> bool) \<Rightarrow> bool \<Rightarrow> 'ctx pool \<Rightarrow> 'ctx pool \<Rightarrow> bool"
  for ip6 interval_ok p0 where
  pr_start: "pool_reachable ip6 interval_ok p0 p0"
| pr_step: "pool_reachable ip6 interval_ok p0 p \<Longrightarrow> pool_step ip6 interval_ok p p' \<Longrightarrow>
    pool_reachable ip6 interval_ok p0 p'"

interpretation pool: machine "pool_step ip6 ok" "pool_reachable ip6 ok"
proof
  fix p q :: "'a pool"
  show "pool_reachable ip6 ok p q \<longleftrightarrow> (pool_step ip6 ok)\<^sup>*\<^sup>* p q"
  proof
    show "(pool_step ip6 ok)\<^sup>*\<^sup>* p q" if "pool_reachable ip6 ok p q"
      using that by induction (auto intro: rtranclp.rtrancl_into_rtrancl)
    show "pool_reachable ip6 ok p q" if "(pool_step ip6 ok)\<^sup>*\<^sup>* p q"
      using that by induction (auto intro: pool_reachable.intros)
  qed
qed

subsection \<open>The invariant of the pool\<close>

definition busy :: "worker \<Rightarrow> bool" where
  "busy w \<longleftrightarrow> (case w of Acquiring _ \<Rightarrow> True | Probing _ _ \<Rightarrow> True | _ \<Rightarrow> False)"

definition busy_on :: "address \<Rightarrow> worker \<Rightarrow> bool" where
  "busy_on a w \<longleftrightarrow>
     (case w of Acquiring t \<Rightarrow> Address t = a | Probing t _ \<Rightarrow> Address t = a | _ \<Rightarrow> False)"

definition holds_token :: "worker \<Rightarrow> bool" where
  "holds_token w \<longleftrightarrow> (case w of Probing _ token \<Rightarrow> token | _ \<Rightarrow> False)"

definition probing_now :: "worker \<Rightarrow> bool" where
  "probing_now w \<longleftrightarrow> (case w of Probing _ _ \<Rightarrow> True | _ \<Rightarrow> False)"

lemmas worker_preds = busy_def busy_on_def holds_token_def probing_now_def

abbreviation count :: "('a \<Rightarrow> bool) \<Rightarrow> 'a list \<Rightarrow> nat" where
  "count P xs \<equiv> length (filter P xs)"

text \<open>Replacing one element changes a count by that element.\<close>

lemma count_update:
  "i < length xs \<Longrightarrow>
    int (count P (xs[i := x])) = int (count P xs) - of_bool (P (xs ! i)) + of_bool (P x)"
proof (induction xs arbitrary: i)
  case (Cons y xs)
  then show ?case by (cases i) auto
qed simp

text \<open>The signals of a log: traffic, latency observations and errors of an address.\<close>

definition traffic :: "address \<Rightarrow> metric_call list \<Rightarrow> nat" where
  "traffic a cs = count (\<lambda>c. c = MInc (TrafficCounter, [a])) cs"

definition observed :: "address \<Rightarrow> metric_call list \<Rightarrow> nat" where
  "observed a cs = count (\<lambda>c. \<exists>v. c = MObserve (LatencyHistogram, [a]) v) cs"

definition errors :: "address \<Rightarrow> metric_call list \<Rightarrow> nat" where
  "errors a cs = count (\<lambda>c. \<exists>cat. c = MInc (ErrorCounter, [a, cat])) cs"

definition gauge :: "metric_call list \<Rightarrow> int" where
  "gauge cs = int (count (\<lambda>c. c = MInc (SaturationGauge, [])) cs)
     - int (count (\<lambda>c. c = MDec (SaturationGauge, [])) cs)"

lemmas signal_defs = traffic_def observed_def errors_def gauge_def

lemma signals_append [simp]:
  "traffic a (xs @ ys) = traffic a xs + traffic a ys"
  "observed a (xs @ ys) = observed a xs + observed a ys"
  "errors a (xs @ ys) = errors a xs + errors a ys"
  "gauge (xs @ ys) = gauge xs + gauge ys"
  by (simp_all add: signal_defs)

lemma signals_begin [simp]:
  "traffic a (probe_begin t) = of_bool (Address t = a)"
  "observed a (probe_begin t) = 0" "errors a (probe_begin t) = 0" "gauge (probe_begin t) = 1"
  by (auto simp: signal_defs probe_begin_def)

lemma signals_end [simp]:
  "traffic a (probe_end t v cat) = 0"
  "observed a (probe_end t v cat) = of_bool (Address t = a)"
  "errors a (probe_end t v cat) = of_bool (Address t = a \<and> cat \<noteq> [])"
  "gauge (probe_end t v cat) = - 1"
  by (auto simp: signal_defs probe_end_def)

lemma signals_drop [simp]:
  "traffic a [MInc (DroppedProbesTotal, [b])] = 0" "observed a [MInc (DroppedProbesTotal, [b])] = 0"
  "errors a [MInc (DroppedProbesTotal, [b])] = 0" "gauge [MInc (DroppedProbesTotal, [b])] = 0"
  by (simp_all add: signal_defs)

lemma signals_expiry:
  assumes "expiry_only b cs"
  shows "traffic a cs = 0" "observed a cs = 0" "errors a cs = 0" "gauge cs = 0"
proof -
  have "traffic a cs = 0 \<and> observed a cs = 0 \<and> errors a cs = 0 \<and> gauge cs = 0"
    using assms by (induction cs) (auto simp: signal_defs)
  then show "traffic a cs = 0" "observed a cs = 0" "errors a cs = 0" "gauge cs = 0" by auto
qed

lemma signals_deletes [simp]:
  "traffic a (DeleteTargetMetrics b) = 0" "observed a (DeleteTargetMetrics b) = 0"
  "errors a (DeleteTargetMetrics b) = 0" "gauge (DeleteTargetMetrics b) = 0"
  by (auto simp: signal_defs DeleteTargetMetrics_def filter_empty_conv)

text \<open>What one step of a worker does to the shared counters.\<close>

definition sem_cap :: "'ctx Dispatcher \<Rightarrow> nat option" where
  "sem_cap d = map_option cap (sem d)"

definition shared_ok :: "nat \<Rightarrow> 'ctx Dispatcher \<Rightarrow> 'ctx shared \<Rightarrow> bool" where
  "shared_ok q d0 s \<longleftrightarrow>
     chan_ok (jobs s) \<and> cap (jobs s) = q \<and> sem_ok (disp s) \<and>
     probers (disp s) = probers d0 \<and> sem_cap (disp s) = sem_cap d0"

lemma shared_ok_log [simp]: "shared_ok q d0 (s\<lparr>log := l\<rparr>) = shared_ok q d0 s"
  by (simp add: shared_ok_def)

lemma shared_ok_jobs:
  "shared_ok q d0 s \<Longrightarrow> chan_ok ch \<Longrightarrow> cap ch = q \<Longrightarrow> shared_ok q d0 (s\<lparr>jobs := ch\<rparr>)"
  by (simp add: shared_ok_def)

lemma shared_ok_take:
  "shared_ok q d0 s \<Longrightarrow> chan_recv (jobs s) = Received j ch \<Longrightarrow> shared_ok q d0 (s\<lparr>jobs := ch\<rparr>)"
  by (rule shared_ok_jobs) (auto simp: shared_ok_def chan_recv_Received chan_ok_def)

lemma shared_ok_token:
  "shared_ok q d0 s \<Longrightarrow> Token d \<in> set (acquire b (disp s)) \<Longrightarrow> shared_ok q d0 (s\<lparr>disp := d\<rparr>)"
proof -
  assume ok: "shared_ok q d0 s" and tok: "Token d \<in> set (acquire b (disp s))"
  then have "sem_ok d" "probers d = probers (disp s)"
    using acquire_tokens [OF tok] by (simp_all add: shared_ok_def)
  moreover have "sem_cap d = sem_cap (disp s)"
    using tok unfolding acquire_Token sem_cap_def by fastforce
  ultimately show ?thesis using ok by (simp add: shared_ok_def)
qed

lemma shared_ok_release:
  "shared_ok q d0 s \<Longrightarrow> release (disp s) = Some d \<Longrightarrow> shared_ok q d0 (s\<lparr>disp := d\<rparr>)"
proof -
  assume ok: "shared_ok q d0 s" and rel: "release (disp s) = Some d"
  then have "sem_ok d" "probers d = probers (disp s)"
    using release_tokens [OF rel] by (simp_all add: shared_ok_def)
  moreover have "sem_cap d = sem_cap (disp s)"
    using rel unfolding release_Some sem_cap_def by fastforce
  ultimately show ?thesis using ok by (simp add: shared_ok_def)
qed

definition signals_ok :: "metric_call list \<Rightarrow> worker list \<Rightarrow> bool" where
  "signals_ok l ws \<longleftrightarrow>
     gauge l = int (count busy ws) \<and>
     (\<forall>a. traffic a l = observed a l + count (busy_on a) ws \<and> errors a l \<le> observed a l)"

definition tokens_ok :: "'ctx Dispatcher \<Rightarrow> worker list \<Rightarrow> bool" where
  "tokens_ok d ws \<longleftrightarrow>
     tokens d = count holds_token ws \<and>
     (sem d \<noteq> None \<longrightarrow> (\<forall>w \<in> set ws. probing_now w \<longrightarrow> holds_token w))"

lemma signals_ok_update:
  assumes "signals_ok l ws" "i < length ws"
    and "gauge l' = gauge l + of_bool (busy w) - of_bool (busy (ws ! i))"
    and "\<And>a. int (traffic a l') + of_bool (busy_on a (ws ! i)) + int (observed a l) =
          int (traffic a l) + int (observed a l') + of_bool (busy_on a w)"
    and "\<And>a. errors a l' + observed a l \<le> errors a l + observed a l'"
  shows "signals_ok l' (ws[i := w])"
proof -
  have "gauge l' = int (count busy (ws[i := w]))"
    using assms(1,3) count_update [OF assms(2), of busy w] by (simp add: signals_ok_def)
  moreover have "traffic a l' = observed a l' + count (busy_on a) (ws[i := w])" for a
  proof -
    have "int (traffic a l) = int (observed a l) + int (count (busy_on a) ws)"
      using assms(1) by (simp add: signals_ok_def)
    then show ?thesis
      using assms(4) [of a] count_update [OF assms(2), of "busy_on a" w] by linarith
  qed
  moreover have "errors a l' \<le> observed a l'" for a
  proof -
    have "errors a l \<le> observed a l" using assms(1) by (simp add: signals_ok_def)
    then show ?thesis using assms(5) [of a] by linarith
  qed
  ultimately show ?thesis unfolding signals_ok_def by blast
qed

lemma tokens_ok_update:
  assumes "tokens_ok d ws" "i < length ws" "sem d' \<noteq> None \<longleftrightarrow> sem d \<noteq> None"
    and "int (tokens d') = int (tokens d) + of_bool (holds_token w) - of_bool (holds_token (ws ! i))"
    and "sem d \<noteq> None \<Longrightarrow> probing_now w \<Longrightarrow> holds_token w"
  shows "tokens_ok d' (ws[i := w])"
proof -
  have "tokens d' = count holds_token (ws[i := w])"
    using assms(1,4) count_update [OF assms(2), of holds_token w] by (simp add: tokens_ok_def)
  moreover have "holds_token v" if "sem d' \<noteq> None" "v \<in> set (ws[i := w])" "probing_now v" for v
    using that assms(1,3,5) set_update_subset_insert [of ws i w] by (auto simp: tokens_ok_def)
  ultimately show ?thesis by (simp add: tokens_ok_def)
qed

lemma probe_done_ok:
  assumes "shared_ok q d0 s" "all_probers d0" "signals_ok (log s) ws" "tokens_ok (disp s) ws"
    and "i < length ws" "ws ! i = Probing t token"
    and d: "if token then release (disp s) = Some d else d = disp s"
    and c: "dispatch ip6 (disp s) probeCtx t = (errCat, calls)"
  shows "signals_ok (log s @ calls @ probe_end t v errCat) (ws[i := Idle]) \<and>
    shared_ok q d0 (s\<lparr>disp := d, log := l\<rparr>) \<and> tokens_ok d (ws[i := Idle])"
proof -
  have "all_probers (disp s)" using assms(1,2) by (simp add: shared_ok_def all_probers_def)
  then have "prober (dispatch ip6 (disp s))" by (rule prober_dispatch)
  from prober.expiry [OF this, of t probeCtx] have "expiry_only (Address t) calls" using c by simp
  note sig = signals_expiry [OF this]
  have "signals_ok (log s @ calls @ probe_end t v errCat) (ws[i := Idle])"
    using assms(3,5,6) sig by (auto simp: worker_preds intro!: signals_ok_update)
  moreover have "shared_ok q d0 (s\<lparr>disp := d, log := l\<rparr>) \<and> tokens_ok d (ws[i := Idle])"
  proof (cases token)
    case True
    then have rel: "release (disp s) = Some d" using d by simp
    then have "tokens (disp s) = Suc (tokens d)" "sem d \<noteq> None" "sem (disp s) \<noteq> None"
      using release_tokens [OF rel] assms(1) by (auto simp: shared_ok_def release_Some)
    moreover have "shared_ok q d0 (s\<lparr>disp := d, log := l\<rparr>)"
      using shared_ok_release [OF assms(1) rel] by (simp add: shared_ok_def)
    ultimately show ?thesis
      using True assms(4-6) by (auto simp: worker_preds intro!: tokens_ok_update)
  next
    case False
    then show ?thesis
      using d assms(1,4-6) by (auto simp: worker_preds intro!: tokens_ok_update)
  qed
  ultimately show ?thesis by blast
qed

lemma worker_step_ok:
  assumes "worker_step ip6 b (w, s) (w', s')" "i < length ws" "ws ! i = w"
    and "shared_ok q d0 s" "all_probers d0" "signals_ok (log s) ws" "tokens_ok (disp s) ws"
  shows "shared_ok q d0 s' \<and> signals_ok (log s') (ws[i := w']) \<and> tokens_ok (disp s') (ws[i := w'])"
  using assms(1)
proof cases
  case w_cancelled
  then show ?thesis
    using assms(2-) by (auto simp: worker_preds intro!: signals_ok_update tokens_ok_update)
next
  case w_closed
  then show ?thesis
    using assms(2-) by (auto simp: worker_preds intro!: signals_ok_update tokens_ok_update)
next
  case (w_take job ch)
  then show ?thesis
    using assms(2-) by (auto simp: worker_preds intro!: signals_ok_update tokens_ok_update shared_ok_take)
next
  case (w_token d probeCtx_done t)
  then have "tokens d = Suc (tokens (disp s))" "sem d \<noteq> None" "sem (disp s) \<noteq> None"
    using acquire_tokens [of d probeCtx_done "disp s"] assms(4) by (auto simp: shared_ok_def acquire_Token)
  with w_token show ?thesis
    using assms(2-) by (auto simp: worker_preds intro!: signals_ok_update tokens_ok_update shared_ok_token)
next
  case (w_no_sem probeCtx_done t)
  then have "sem (disp s) = None" by (simp add: acquire_other)
  with w_no_sem show ?thesis
    using assms(2-) by (auto simp: worker_preds intro!: signals_ok_update tokens_ok_update)
next
  case (w_timeout probeCtx_done duration t)
  then show ?thesis
    using assms(2-) by (auto simp: worker_preds intro!: signals_ok_update tokens_ok_update)
next
  case (w_done probeCtx t errCat calls duration token d)
  then have "signals_ok (log s') (ws[i := w']) \<and> shared_ok q d0 s' \<and> tokens_ok (disp s') (ws[i := w'])"
    using probe_done_ok [OF assms(4-7) assms(2), of t token d] assms(3) by auto
  then show ?thesis by simp
qed

subsection \<open>Reachable pools\<close>

definition pool_inv :: "nat \<Rightarrow> nat \<Rightarrow> 'ctx Dispatcher \<Rightarrow> 'ctx pool \<Rightarrow> bool" where
  "pool_inv n q d0 p \<longleftrightarrow>
     length (pool_workers p) = n \<and> shared_ok q d0 (pool_shared p) \<and>
     signals_ok (log (pool_shared p)) (pool_workers p) \<and>
     tokens_ok (disp (pool_shared p)) (pool_workers p)"

text \<open>A dispatcher as \<open>main\<close> hands it to the workers: registered probers, no token taken.\<close>

definition fresh_dispatcher :: "'ctx Dispatcher \<Rightarrow> bool" where
  "fresh_dispatcher d \<longleftrightarrow> all_probers d \<and> sem_ok d \<and> tokens d = 0 \<and> sem_cap d \<noteq> Some 0"

lemma fresh_main: "fresh_dispatcher (main_dispatcher net tr cfg n)"
proof -
  have "sem (main_dispatcher net tr cfg n) = sem (NewDispatcher n :: 'a Dispatcher)"
    by (simp add: main_dispatcher_def Register_def)
  then show ?thesis
    using all_probers_main [of net tr cfg n]
    by (simp add: fresh_dispatcher_def sem_ok_def tokens_def sem_cap_def)
      (simp add: NewDispatcher_def make_chan_def chan_ok_def)
qed

lemma pool_inv_start: "fresh_dispatcher d \<Longrightarrow> pool_inv n q d (start_pool n q d)"
  by (auto simp: pool_inv_def start_pool_def shared_ok_def fresh_dispatcher_def signals_ok_def
      tokens_ok_def worker_preds signal_defs make_chan_def chan_ok_def)

lemma enqueue_Enqueued:
  "Enqueued ch' \<in> set (enqueue b t ch) \<Longrightarrow>
    \<not> closed ch \<and> length (buf ch) < cap ch \<and> ch' = ch\<lparr>buf := buf ch @ [\<lparr>job_target = t\<rparr>]\<rparr>"
  by (auto simp: enqueue_def chan_send_def Let_def split: if_splits)

text \<open>What a step of a scheduler does to the state it shares: nothing, a job, or a drop.\<close>

lemma sched_step_effect:
  assumes "sched_step ok b t (c, s) (c', s')"
  obtains (same) "s' = s"
    | (queued) "\<not> closed (jobs s)" "length (buf (jobs s)) < cap (jobs s)"
        "s' = s\<lparr>jobs := (jobs s)\<lparr>buf := buf (jobs s) @ [\<lparr>job_target = t\<rparr>]\<rparr>\<rparr>"
    | (dropped) "\<not> closed (jobs s)" "s' = s\<lparr>log := log s @ [MInc (DroppedProbesTotal, [Address t])]\<rparr>"
proof -
  have effect: "snd (after_enqueue t r s) = s \<or>
      \<not> closed (jobs s) \<and> length (buf (jobs s)) < cap (jobs s) \<and>
        snd (after_enqueue t r s) = s\<lparr>jobs := (jobs s)\<lparr>buf := buf (jobs s) @ [\<lparr>job_target = t\<rparr>]\<rparr>\<rparr> \<or>
      \<not> closed (jobs s) \<and>
        snd (after_enqueue t r s) = s\<lparr>log := log s @ [MInc (DroppedProbesTotal, [Address t])]\<rparr>"
    if "r \<in> set (enqueue b t (jobs s))" for r
  proof (cases r)
    case (Enqueued ch)
    with that show ?thesis by (auto dest!: enqueue_Enqueued)
  next
    case ErrJobDropped
    with that show ?thesis by (auto simp: enqueue_def chan_send_def Let_def split: if_splits)
  qed simp_all
  have "s' = s \<or> (\<exists>r \<in> set (enqueue b t (jobs s)). s' = snd (after_enqueue t r s))"
    using assms by cases (auto simp: prod_eq_iff)
  with effect show thesis using same queued dropped by blast
qed

lemma sched_step_shared:
  assumes "sched_step ok b t (c, s) (c', s')" "shared_ok q d0 s"
  shows "shared_ok q d0 s' \<and> disp s' = disp s \<and>
    (log s' = log s \<or> log s' = log s @ [MInc (DroppedProbesTotal, [Address t])])"
  using assms(1) by (cases rule: sched_step_effect) (use assms(2) in \<open>auto simp: shared_ok_def chan_ok_def\<close>)

lemma pool_inv_step:
  assumes "pool_inv n q d p" "all_probers d" "pool_step ip6 ok p p'"
  shows "pool_inv n q d p'"
  using assms(3)
proof cases
  case (p_worker i w s)
  then show ?thesis
    using worker_step_ok [OF p_worker(3,2) refl, of q d] assms(1,2) by (simp add: pool_inv_def)
next
  case (p_sched i sp c s)
  have "signals_ok (l @ [MInc (DroppedProbesTotal, [b])]) ws = signals_ok l ws" for l b ws
    by (simp add: signals_ok_def)
  then show ?thesis
    using sched_step_shared [OF p_sched(4), of q d] assms(1) p_sched(1) by (auto simp: pool_inv_def)
next
  case (p_handoff i j sp)
  let ?l = "log (pool_shared p) @ probe_begin (sp_target sp)"
  have "signals_ok ?l ((pool_workers p)[i := Acquiring (sp_target sp)])"
    using assms(1) p_handoff(2,3) unfolding pool_inv_def
    by (intro signals_ok_update [of "log (pool_shared p)"]) (auto simp: worker_preds)
  moreover have "tokens_ok (disp (pool_shared p)) ((pool_workers p)[i := Acquiring (sp_target sp)])"
    using assms(1) p_handoff(2,3) unfolding pool_inv_def
    by (intro tokens_ok_update [of "disp (pool_shared p)"]) (auto simp: worker_preds)
  ultimately show ?thesis using assms(1) p_handoff(1) by (simp add: pool_inv_def)
next
  case (p_close ch)
  then show ?thesis
    using assms(1) by (auto simp: pool_inv_def shared_ok_def chan_close_def chan_ok_def split: if_splits)
next
  case (p_purge a)
  have "signals_ok (l @ DeleteTargetMetrics a) ws = signals_ok l ws" for l ws
    by (simp add: signals_ok_def)
  then show ?thesis using assms(1) p_purge by (simp add: pool_inv_def)
qed (use assms(1) in \<open>simp_all add: pool_inv_def\<close>)

lemma pool_reachable_inv:
  assumes "pool_reachable ip6 ok (start_pool n q d) p" "fresh_dispatcher d"
  shows "pool_inv n q d p"
  using assms(1)
proof (rule pool.reach_invariant)
  show "pool_inv n q d (start_pool n q d)" by (rule pool_inv_start [OF assms(2)])
qed (use assms(2) in \<open>auto simp: fresh_dispatcher_def intro: pool_inv_step\<close>)

text \<open>What the invariant of the pool says of the numbers.\<close>

lemma pool_inv_bounds:
  assumes "pool_inv n q (main_dispatcher nw tr cfg maxProbes) p"
  shows "length (pool_workers p) = n" "count probing_now (pool_workers p) \<le> n"
    "0 < sint maxProbes \<Longrightarrow> count probing_now (pool_workers p) \<le> nat (sint maxProbes)"
    "length (buf (jobs (pool_shared p))) \<le> q" "count busy (pool_workers p) \<le> n"
proof -
  let ?main = "main_dispatcher nw tr cfg maxProbes"
  let ?d = "disp (pool_shared p)"
  show n: "length (pool_workers p) = n" and "length (buf (jobs (pool_shared p))) \<le> q"
    using assms by (simp_all add: pool_inv_def shared_ok_def chan_ok_def)
  show "count probing_now (pool_workers p) \<le> n" "count busy (pool_workers p) \<le> n"
    using n length_filter_le [of _ "pool_workers p"] by metis+
  assume pos: "0 < sint maxProbes"
  then have "sem_cap ?main = Some (nat (sint maxProbes))"
    by (simp add: sem_cap_def main_dispatcher_def Register_def NewDispatcher_def make_chan_def)
  then obtain ch where ch: "sem ?d = Some ch" "cap ch = nat (sint maxProbes)"
    using assms by (auto simp: pool_inv_def shared_ok_def sem_cap_def)
  then have "length (buf ch) \<le> nat (sint maxProbes)" "tokens ?d = length (buf ch)"
    using assms by (auto simp: pool_inv_def shared_ok_def sem_ok_def chan_ok_def tokens_def)
  moreover have "filter probing_now (pool_workers p) = filter holds_token (pool_workers p)"
    using assms ch by (intro filter_cong refl)
      (auto simp: pool_inv_def tokens_ok_def holds_token_def probing_now_def split: worker.splits)
  ultimately show "count probing_now (pool_workers p) \<le> nat (sint maxProbes)"
    using assms by (simp add: pool_inv_def tokens_ok_def)
qed

subsection \<open>Draining\<close>

text \<open>One step of some worker; the measure is what the workers still can do.\<close>

definition pool_worker_step :: "(string \<Rightarrow> bool) \<Rightarrow> 'ctx pool \<Rightarrow> 'ctx pool \<Rightarrow> bool" where
  "pool_worker_step ip6 p p' \<longleftrightarrow>
     (\<exists>i w s. i < length (pool_workers p) \<and>
        worker_step ip6 (pool_done p) (pool_workers p ! i, pool_shared p) (w, s) \<and>
        p' = p\<lparr>pool_workers := (pool_workers p)[i := w], pool_shared := s\<rparr>)"

fun weight :: "worker \<Rightarrow> nat" where
  "weight Idle = 1"
| "weight (Acquiring t) = 3"
| "weight (Probing t token) = 2"
| "weight Exited = 0"

definition drain_measure :: "'ctx pool \<Rightarrow> nat" where
  "drain_measure p = 3 * length (buf (jobs (pool_shared p))) + sum_list (map weight (pool_workers p))"

lemma worker_step_measure:
  "worker_step ip6 b (w, s) (w', s') \<Longrightarrow>
    3 * length (buf (jobs s')) + weight w' < 3 * length (buf (jobs s)) + weight w \<and>
    (closed (jobs s) \<longrightarrow> closed (jobs s'))"
  by (auto elim!: worker_stepE simp: chan_recv_Received)

lemma pool_worker_step_measure:
  assumes "pool_worker_step ip6 p p'"
  shows "drain_measure p' < drain_measure p" "closed (jobs (pool_shared p)) \<Longrightarrow> closed (jobs (pool_shared p'))"
proof -
  obtain i w s where i: "i < length (pool_workers p)"
    and st: "worker_step ip6 (pool_done p) (pool_workers p ! i, pool_shared p) (w, s)"
    and p': "p' = p\<lparr>pool_workers := (pool_workers p)[i := w], pool_shared := s\<rparr>"
    using assms by (auto simp: pool_worker_step_def)
  have "sum_list (map weight ((pool_workers p)[i := w])) + weight (pool_workers p ! i)
      = sum_list (map weight (pool_workers p)) + weight w"
    using i member_le_sum_list [of "weight (pool_workers p ! i)" "map weight (pool_workers p)"]
    by (simp add: map_update sum_list_update)
  with worker_step_measure [OF st] show "drain_measure p' < drain_measure p"
    by (simp add: drain_measure_def p')
  show "closed (jobs (pool_shared p)) \<Longrightarrow> closed (jobs (pool_shared p'))"
    using worker_step_measure [OF st] by (simp add: p')
qed

text \<open>What a worker waits for is there: a token it holds can be given back, and a free one taken.\<close>

lemma held_token_released:
  assumes "tokens_ok (disp s) ws" "Probing t token \<in> set ws"
  shows "\<exists>d. if token then release (disp s) = Some d else d = disp s"
proof (cases token)
  case True
  then have "filter holds_token ws \<noteq> []"
    using assms(2) by (force simp: filter_empty_conv holds_token_def)
  then show ?thesis using assms(1) True by (auto simp: tokens_ok_def intro!: release_possible)
qed simp

lemma token_free:
  assumes "shared_ok q d0 s" "fresh_dispatcher d0" "tokens_ok (disp s) ws"
    and "\<And>t token. Probing t token \<notin> set ws" "sem (disp s) = Some ch"
  shows "\<exists>d. Token d \<in> set (acquire b (disp s))"
proof -
  have "filter holds_token ws = []"
    using assms(4) by (auto simp: filter_empty_conv holds_token_def split: worker.splits)
  then have "tokens (disp s) = 0" using assms(3) by (simp add: tokens_ok_def)
  moreover have "sem_cap (disp s) \<noteq> Some 0"
    using assms(1,2) by (simp add: shared_ok_def fresh_dispatcher_def)
  ultimately have "\<not> closed ch" "0 < cap ch" "buf ch = []"
    using assms(1,5) by (simp_all add: shared_ok_def sem_ok_def sem_cap_def tokens_def)
  then show ?thesis using assms(5) by (simp add: acquire_Token)
qed

lemma worker_steps_pool:
  assumes "v \<in> set (pool_workers p)" "worker_step ip6 (pool_done p) (v, pool_shared p) (w', s')"
  shows "\<exists>p'. pool_worker_step ip6 p p'"
proof -
  obtain i where "i < length (pool_workers p)" "pool_workers p ! i = v"
    using assms(1) by (auto simp: in_set_conv_nth)
  with assms(2) show ?thesis unfolding pool_worker_step_def by blast
qed

lemma worker_can_step:
  assumes "pool_inv n q d0 p" "fresh_dispatcher d0" "closed (jobs (pool_shared p))"
    and "w \<in> set (pool_workers p)" "w \<noteq> Exited"
  shows "\<exists>p'. pool_worker_step ip6 p p'"
proof -
  let ?s = "pool_shared p"
  have ok: "shared_ok q d0 ?s" "tokens_ok (disp ?s) (pool_workers p)"
    using assms(1) by (simp_all add: pool_inv_def)
  consider (probing) t token where "Probing t token \<in> set (pool_workers p)"
    | (idle) "w = Idle"
    | (acquiring) t where "w = Acquiring t" "\<And>t token. Probing t token \<notin> set (pool_workers p)"
    using assms(4,5) by (metis worker.exhaust)
  then show ?thesis
  proof cases
    case probing
    obtain d where d: "if token then release (disp ?s) = Some d else d = disp ?s"
      using held_token_released [OF ok(2) probing] by blast
    obtain cat calls where "dispatch ip6 (disp ?s) undefined t = (cat, calls)" by fastforce
    from w_done [OF this order.refl d] show ?thesis by (rule worker_steps_pool [OF probing])
  next
    case idle
    show ?thesis
    proof (cases "chan_recv (jobs ?s)")
      case (Received job ch)
      from w_take [OF this] show ?thesis using worker_steps_pool assms(4) idle by blast
    next
      case RecvBlocks
      then show ?thesis using assms(3) by (simp add: chan_recv_def split: list.splits)
    next
      case RecvClosed
      from w_closed [OF this] show ?thesis using worker_steps_pool assms(4) idle by blast
    qed
  next
    case acquiring
    show ?thesis
    proof (cases "sem (disp ?s)")
      case None
      then have "NoSemaphore \<in> set (acquire False (disp ?s))" by (simp add: acquire_other)
      from w_no_sem [OF this] show ?thesis using worker_steps_pool assms(4) acquiring(1) by blast
    next
      case (Some ch)
      then obtain d where "Token d \<in> set (acquire False (disp ?s))"
        using token_free [OF ok(1) assms(2) ok(2) acquiring(2)] by blast
      from w_token [OF this] show ?thesis using worker_steps_pool assms(4) acquiring(1) by blast
    qed
  qed
qed

lemma pool_worker_step_pool: "pool_worker_step ip6 p p' \<Longrightarrow> pool_step ip6 ok p p'"
  by (auto simp: pool_worker_step_def intro: pool_step.p_worker)

lemma drain_run:
  assumes "(pool_worker_step ip6 ^^ k) p p'" "pool_reachable ip6 ok p0 p" "closed (jobs (pool_shared p))"
  shows "k + drain_measure p' \<le> drain_measure p \<and> pool_reachable ip6 ok p0 p' \<and>
    closed (jobs (pool_shared p'))"
  using assms
proof (induction k arbitrary: p')
  case (Suc k)
  then obtain p1 where p1: "(pool_worker_step ip6 ^^ k) p p1" "pool_worker_step ip6 p1 p'"
    by (auto elim: relpowp_Suc_E)
  with Suc.IH [OF p1(1) Suc.prems(2,3)] show ?case
    using pool_worker_step_measure [OF p1(2)]
    by (auto intro: pool_reachable.pr_step pool_worker_step_pool)
qed simp

subsection \<open>Properties\<close>

text \<open>A pool of one worker that is probing one target, for the witnesses.\<close>

definition ex_job :: Target where
  "ex_job = zero_Target\<lparr>Address := ''tcp://db:5432'', Scheme := ''tcp''\<rparr>"

definition ex_pool :: "bool \<Rightarrow> unit pool" where
  "ex_pool is_closed =
     \<lparr>pool_workers = [Acquiring ex_job],
      pool_scheds = [\<lparr>sp_target = ex_job, sp_ctl = Waiting, sp_cancelled = False\<rparr>],
      pool_done = False,
      pool_shared = \<lparr>jobs = \<lparr>buf = [], cap = 1, closed = is_closed\<rparr>, disp = ex_dispatcher,
                     log = probe_begin ex_job\<rparr>\<rparr>"

lemma ex_pool_reachable: "pool_reachable ip6 True (start_pool 1 1 ex_dispatcher) (ex_pool b)"
proof -
  let ?reach = "pool_reachable ip6 True (start_pool 1 1 ex_dispatcher)"
  let ?sched = "\<lambda>c. \<lparr>sp_target = ex_job, sp_ctl = c, sp_cancelled = False\<rparr>"
  let ?pool = "\<lambda>ws c xs l. \<lparr>pool_workers = ws, pool_scheds = [?sched c], pool_done = False,
      pool_shared = \<lparr>jobs = \<lparr>buf = xs, cap = 1, closed = False\<rparr>, disp = ex_dispatcher, log = l\<rparr>\<rparr>"
  have s1: "?reach (?pool [Idle] Fresh [] [])"
    using pool_reachable.pr_step [OF pool_reachable.pr_start pool_step.p_start [of ip6 True "start_pool 1 1 ex_dispatcher" ex_job]]
    by (simp add: start_pool_def make_chan_def)
  have "Enqueued \<lparr>buf = [\<lparr>job_target = ex_job\<rparr>], cap = 1, closed = False\<rparr>
      \<in> set (enqueue False ex_job \<lparr>buf = [], cap = 1, closed = False\<rparr>)"
    by (simp add: enqueue_def chan_send_def)
  then have "sched_step True False ex_job
      (Fresh, \<lparr>jobs = \<lparr>buf = [], cap = 1, closed = False\<rparr>, disp = ex_dispatcher, log = []\<rparr>)
      (Waiting, \<lparr>jobs = \<lparr>buf = [\<lparr>job_target = ex_job\<rparr>], cap = 1, closed = False\<rparr>, disp = ex_dispatcher, log = []\<rparr>)"
    using sched_step.s_first [of True _ False ex_job
        "\<lparr>jobs = \<lparr>buf = [], cap = 1, closed = False\<rparr>, disp = ex_dispatcher, log = []\<rparr>"] by force
  with s1 have s2: "?reach (?pool [Idle] Waiting [\<lparr>job_target = ex_job\<rparr>] [])"
    using pool_reachable.pr_step [OF s1 pool_step.p_sched [of 0 _ "?sched Fresh" True Waiting]] by simp
  have "worker_step ip6 False
      (Idle, \<lparr>jobs = \<lparr>buf = [\<lparr>job_target = ex_job\<rparr>], cap = 1, closed = False\<rparr>, disp = ex_dispatcher, log = []\<rparr>)
      (Acquiring ex_job, \<lparr>jobs = \<lparr>buf = [], cap = 1, closed = False\<rparr>, disp = ex_dispatcher, log = probe_begin ex_job\<rparr>)"
    using worker_step.w_take [of "\<lparr>jobs = \<lparr>buf = [\<lparr>job_target = ex_job\<rparr>], cap = 1, closed = False\<rparr>,
        disp = ex_dispatcher, log = []\<rparr>" "\<lparr>job_target = ex_job\<rparr>" "\<lparr>buf = [], cap = 1, closed = False\<rparr>" ip6 False]
    by (simp add: chan_recv_def)
  with s2 have s3: "?reach (ex_pool False)"
    using pool_reachable.pr_step [OF s2 pool_step.p_worker [of 0 _ ip6 "Acquiring ex_job"]]
    by (simp add: ex_pool_def)
  have "chan_close (jobs (pool_shared (ex_pool False))) = Some \<lparr>buf = [], cap = 1, closed = True\<rparr>"
    by (simp add: ex_pool_def chan_close_def)
  then have "?reach (ex_pool True)"
    using pool_reachable.pr_step [OF s3 pool_step.p_close] by (simp add: ex_pool_def)
  with s3 show ?thesis by (cases b) simp_all
qed

text \<open>The numbers of a reachable pool; the program inherits them.\<close>

lemma probe_concurrency_bounded:
  assumes "pool_reachable ip6 ok (start_pool n q (main_dispatcher nw tr cfg maxProbes)) p"
  shows "length (pool_workers p) = n \<and>
    count probing_now (pool_workers p) \<le> n \<and>
    (0 < sint maxProbes \<longrightarrow> count probing_now (pool_workers p) \<le> nat (sint maxProbes)) \<and>
    length (buf (jobs (pool_shared p))) \<le> q"
  using pool_inv_bounds [OF pool_reachable_inv [OF assms fresh_main]] by blast

lemma ex_pool_bounded:
  "length (filter probing_now (pool_workers (ex_pool False))) \<le> 1"
  using probe_concurrency_bounded [OF ex_pool_reachable [unfolded ex_dispatcher_def, of "\<lambda>_. True" False]]
  by simp

text \<open>
  The golden signals agree with each other at every moment: the saturation gauge is the
  number of workers inside a probe; for every target the traffic counter is the number of
  latency observations plus the probes under way; and no target has more errors than
  observations.
\<close>

lemma golden_signals_consistent:
  assumes "pool_inv n q (main_dispatcher nw tr cfg maxProbes) p"
  shows "let l = log (pool_shared p) in
    gauge l = int (count busy (pool_workers p)) \<and> 0 \<le> gauge l \<and> gauge l \<le> int n \<and>
    (\<forall>a. traffic a l = observed a l + count (busy_on a) (pool_workers p) \<and> errors a l \<le> observed a l)"
  using assms pool_inv_bounds(5) [OF assms] by (simp add: pool_inv_def signals_ok_def Let_def)

text \<open>
  C11. The workers drain a closed queue: once the queue is closed, any run of worker steps is
  bounded (at most three for each queued job and each worker), and it can stop only when
  every worker has exited. So the wait for the workers returns if every probe returns.
\<close>

theorem workers_drain:
  assumes "pool_reachable ip6 ok (start_pool n q (main_dispatcher net tr cfg maxProbes)) p"
    and "closed (jobs (pool_shared p))" "(pool_worker_step ip6 ^^ k) p p'"
  shows "k \<le> 3 * (length (buf (jobs (pool_shared p))) + n) \<and>
    ((\<nexists>p''. pool_worker_step ip6 p' p'') \<longrightarrow> set (pool_workers p') \<subseteq> {Exited})"
proof -
  have "weight w \<le> 3" for w by (cases w) simp_all
  then have "sum_list (map weight (pool_workers p)) \<le> 3 * length (pool_workers p)"
    using sum_list_mono [of "pool_workers p" weight "\<lambda>_. 3"] by (simp add: sum_list_triv mult.commute)
  moreover have "length (pool_workers p) = n"
    using pool_reachable_inv [OF assms(1) fresh_main] by (simp add: pool_inv_def)
  moreover have run: "k + drain_measure p' \<le> drain_measure p"
    "pool_reachable ip6 ok (start_pool n q (main_dispatcher net tr cfg maxProbes)) p'"
    "closed (jobs (pool_shared p'))"
    using drain_run [OF assms(3,1,2)] by simp_all
  moreover have "w = Exited" if "\<nexists>p''. pool_worker_step ip6 p' p''" "w \<in> set (pool_workers p')" for w
    using worker_can_step [OF pool_reachable_inv [OF run(2) fresh_main] fresh_main run(3) that(2), of ip6] that(1)
    by blast
  ultimately show ?thesis
    by (auto simp: drain_measure_def)
qed

theorem workers_drain_witness:
  "\<exists>p''. pool_worker_step (\<lambda>_. True) (ex_pool True) p''"
  using workers_drain [OF ex_pool_reachable [unfolded ex_dispatcher_def, of "\<lambda>_. True" True],
      of 0 "ex_pool True"]
  by (auto simp: ex_pool_def)

text \<open>
  A scheduler never blocks on the queue: every attempt has an outcome at once. The job is
  queued only where there is room, it is dropped exactly when the queue is full (and the
  scheduler is not cancelled), and the send panics exactly when the queue was closed.
\<close>

lemma enqueue_never_blocks:
  "enqueue ctx_done t ch \<noteq> [] \<and>
   (ErrJobDropped \<in> set (enqueue ctx_done t ch) \<longleftrightarrow> \<not> ctx_done \<and> \<not> closed ch \<and> cap ch \<le> length (buf ch)) \<and>
   (EnqPanic \<in> set (enqueue ctx_done t ch) \<longleftrightarrow> closed ch) \<and>
   (EnqCtxDone \<in> set (enqueue ctx_done t ch) \<longleftrightarrow> ctx_done) \<and>
   (Enqueued ch' \<in> set (enqueue ctx_done t ch) \<longleftrightarrow>
      \<not> closed ch \<and> length (buf ch) < cap ch \<and> ch' = ch\<lparr>buf := buf ch @ [\<lparr>job_target = t\<rparr>]\<rparr>)"
  by (auto simp: enqueue_def chan_send_def Let_def)

end
