(* ===== verification/System.thy ===== *)
theory System
  imports Watchers EventLoop Worker
begin

section \<open>The whole program: start, run and shutdown (main.go)\<close>

text \<open>
  All goroutines together. The state holds the registry (with its event channel), the event
  loop with the control states of the schedulers it started (\<open>ctls ! i\<close> belongs to
  \<open>schedulers ! i\<close>), the workers and what they share, the events each informer callback still
  has to send (\<open>outboxes\<close>: the callback has left the critical section), the tasks that run the
  informers, the telemetry server and its requests for metrics, whether the signal context is
  done, and where the main goroutine is. \<open>crashed\<close> is a panic, which ends the
  process. WaitGroups and the error group are read off the control states: a wait passes when
  all the goroutines it counts have returned. Callbacks run on goroutines of client-go that
  nothing waits for; they and the tasks send under the context of the error group.
\<close>

datatype phase = Serving | CancelSchedulers | WaitSchedulers | WaitInformers | CloseRegistry
  | WaitEventLoop | CloseJobs | WaitWorkers | ShutdownServer | WaitHandlers | Goodbye

text \<open>
  The telemetry server: not listening yet, listening, or \<open>ListenAndServe\<close> has returned with an
  error (\<open>Start\<close> logs it and returns), or \<open>Shutdown\<close> was called.
\<close>

datatype server_state = SrvNew | SrvListening | SrvFailed | SrvClosed

text \<open>
  A request for the metrics page: accepted, its response being written, or with targets still to
  delete, as the handler has collected them.
\<close>

datatype request = Accepted | Purging "address list"

text \<open>The phases in their order, so that \<open>\<le>\<close> is progress.\<close>

primrec phase_index :: "phase \<Rightarrow> nat" where
  "phase_index Serving = 0"
| "phase_index CancelSchedulers = 1"
| "phase_index WaitSchedulers = 2"
| "phase_index WaitInformers = 3"
| "phase_index CloseRegistry = 4"
| "phase_index WaitEventLoop = 5"
| "phase_index CloseJobs = 6"
| "phase_index WaitWorkers = 7"
| "phase_index ShutdownServer = 8"
| "phase_index WaitHandlers = 9"
| "phase_index Goodbye = 10"

lemma phase_index_inject: "phase_index x = phase_index y \<Longrightarrow> x = y"
  by (cases x; cases y) simp_all

instantiation phase :: linorder
begin

definition less_eq_phase :: "phase \<Rightarrow> phase \<Rightarrow> bool" where
  "less_eq_phase x y \<longleftrightarrow> phase_index x \<le> phase_index y"

definition less_phase :: "phase \<Rightarrow> phase \<Rightarrow> bool" where
  "less_phase x y \<longleftrightarrow> phase_index x < phase_index y"

instance
  by standard (auto simp: less_eq_phase_def less_phase_def phase_index_inject)

end

record 'ctx system =
  sys_reg :: Registry
  sys_outboxes :: "TargetEvent list list"
  sys_tasks :: "task_name \<Rightarrow> task"   \<comment> \<open>of \<open>informerGroup\<close>\<close>
  sys_loop :: Loop
  sys_loop_done :: bool             \<comment> \<open>\<open>eventLoopDone\<close> is closed\<close>
  sys_ctls :: "sched list"
  sys_workers :: "worker list"
  sys_shared :: "'ctx shared"
  sys_server :: server_state
  sys_requests :: "request list"
  sys_done :: bool                  \<comment> \<open>\<open>ctx\<close> is done\<close>
  sys_phase :: phase
  sys_crashed :: bool

definition start_system :: "string \<Rightarrow> nat \<Rightarrow> nat \<Rightarrow> 'ctx Dispatcher \<Rightarrow> 'ctx system" where
  "start_system selfIP workers queue d =
     \<lparr>sys_reg = NewRegistry selfIP, sys_outboxes = [], sys_tasks = (\<lambda>_. Starting),
      sys_loop = new_Loop, sys_loop_done = False, sys_ctls = [], sys_workers = replicate workers Idle,
      sys_shared = \<lparr>jobs = make_chan queue, disp = d, log = []\<rparr>, sys_server = SrvNew, sys_requests = [],
      sys_done = False, sys_phase = Serving, sys_crashed = False\<rparr>"

text \<open>The context of the callbacks and of the tasks, \<open>informerCtx\<close>.\<close>

abbreviation informerCtx_done :: "'ctx system \<Rightarrow> bool" where
  "informerCtx_done s \<equiv> group_done (sys_done s) (sys_tasks s)"

text \<open>The outcome of sending the first event of an outbox.\<close>

definition after_emit :: "emit_result \<Rightarrow> 'ctx system \<Rightarrow> 'ctx system" where
  "after_emit res s =
     (case res of
        Delivered ch \<Rightarrow> s\<lparr>sys_reg := (sys_reg s)\<lparr>Events := ch\<rparr>\<rparr>
      | GaveUpCtx \<Rightarrow> s
      | GaveUpTimer \<Rightarrow> s
      | EmitPanic \<Rightarrow> s\<lparr>sys_crashed := True\<rparr>)"

text \<open>
  One event for the loop; a \<open>go\<close> statement adds a control state for the new scheduler.
\<close>

definition loop_receive :: "TargetEvent \<Rightarrow> 'ctx system \<Rightarrow> 'ctx system" where
  "loop_receive e s =
     (let l = handle_event e (sys_loop s)
      in s\<lparr>sys_loop := l,
           sys_ctls := sys_ctls s @ replicate (length (schedulers l) - length (sys_ctls s)) Fresh\<rparr>)"

subsection \<open>The main goroutine after the signal\<close>

text \<open>
  The steps of main from the receive from \<open>ctx.Done()\<close> to the end: each is enabled when what it waits for
  has happened. \<open>Shutdown\<close> closes the listener at once, then it returns when no request is in
  progress or at its \<open>deadline\<close>; main ignores which.
\<close>

inductive main_step :: "'ctx system \<Rightarrow> 'ctx system \<Rightarrow> bool" where
  m_signal: "sys_phase s = Serving \<Longrightarrow> sys_done s \<Longrightarrow>
    main_step s (s\<lparr>sys_phase := CancelSchedulers\<rparr>)"
| m_cancel: "sys_phase s = CancelSchedulers \<Longrightarrow> range_order order (activeSchedulers (sys_loop s)) \<Longrightarrow>
    main_step s (s\<lparr>sys_loop := cancel_all order (sys_loop s), sys_phase := WaitSchedulers\<rparr>)"
| m_schedulers: "sys_phase s = WaitSchedulers \<Longrightarrow> set (sys_ctls s) \<subseteq> {Stopped} \<Longrightarrow>
    main_step s (s\<lparr>sys_phase := WaitInformers\<rparr>)"
| m_informers: "sys_phase s = WaitInformers \<Longrightarrow> all_returned (sys_tasks s) \<Longrightarrow>
    main_step s (s\<lparr>sys_phase := CloseRegistry\<rparr>)"
| m_close_registry: "sys_phase s = CloseRegistry \<Longrightarrow> Close (sys_reg s) = Some r \<Longrightarrow>
    main_step s (s\<lparr>sys_reg := r, sys_phase := WaitEventLoop\<rparr>)"
| m_close_registry_panic: "sys_phase s = CloseRegistry \<Longrightarrow> Close (sys_reg s) = None \<Longrightarrow>
    main_step s (s\<lparr>sys_crashed := True\<rparr>)"
| m_event_loop: "sys_phase s = WaitEventLoop \<Longrightarrow> sys_loop_done s \<Longrightarrow>
    main_step s (s\<lparr>sys_phase := CloseJobs\<rparr>)"
| m_close_jobs: "sys_phase s = CloseJobs \<Longrightarrow> chan_close (jobs (sys_shared s)) = Some ch \<Longrightarrow>
    main_step s (s\<lparr>sys_shared := (sys_shared s)\<lparr>jobs := ch\<rparr>, sys_phase := WaitWorkers\<rparr>)"
| m_close_jobs_panic: "sys_phase s = CloseJobs \<Longrightarrow> chan_close (jobs (sys_shared s)) = None \<Longrightarrow>
    main_step s (s\<lparr>sys_crashed := True\<rparr>)"
| m_workers: "sys_phase s = WaitWorkers \<Longrightarrow> set (sys_workers s) \<subseteq> {Exited} \<Longrightarrow>
    main_step s (s\<lparr>sys_phase := ShutdownServer\<rparr>)"
| m_shutdown: "sys_phase s = ShutdownServer \<Longrightarrow>
    main_step s (s\<lparr>sys_server := SrvClosed, sys_phase := WaitHandlers\<rparr>)"
| m_goodbye: "sys_phase s = WaitHandlers \<Longrightarrow> deadline \<or> set (sys_requests s) \<subseteq> {Purging []} \<Longrightarrow>
    main_step s (s\<lparr>sys_phase := Goodbye\<rparr>)"

subsection \<open>All goroutines\<close>

text \<open>
  The steps of the other goroutines; \<open>callbacks\<close> says whether informer callbacks still
  arrive. After its sync \<open>WatchPeers\<close> processes the peers itself and goes on when it has sent
  the events. A request is accepted while the server listens, and goes on when it no longer does.
\<close>

inductive system_step ::
  "(string \<Rightarrow> bool) \<Rightarrow> (Unstructured \<Rightarrow> string) \<Rightarrow> bool \<Rightarrow> bool \<Rightarrow> 'ctx system \<Rightarrow> 'ctx system \<Rightarrow> bool"
  for ip6 GetName interval_ok callbacks where
  y_callback: "\<not> sys_crashed s \<Longrightarrow> callbacks \<Longrightarrow> valid_informer (sys_reg s) x \<Longrightarrow>
    registered (sys_tasks s (informer_task x)) \<Longrightarrow> informer_step GetName (sys_reg s) x = (r, events) \<Longrightarrow>
    system_step ip6 GetName interval_ok callbacks s
      (s\<lparr>sys_reg := r, sys_outboxes := sys_outboxes s @ [events]\<rparr>)"
| y_task: "\<not> sys_crashed s \<Longrightarrow> task_step (informerCtx_done s) k (sys_tasks s k) t \<Longrightarrow>
    system_step ip6 GetName interval_ok callbacks s (s\<lparr>sys_tasks := (sys_tasks s)(k := t)\<rparr>)"
| y_peers: "\<not> sys_crashed s \<Longrightarrow> sys_tasks s Peers = Syncing \<Longrightarrow> range_order order (targets (sys_reg s)) \<Longrightarrow>
    updatePeers store order (sys_reg s) = (r, events) \<Longrightarrow>
    system_step ip6 GetName interval_ok callbacks s
      (s\<lparr>sys_reg := r, sys_outboxes := sys_outboxes s @ [events],
         sys_tasks := (sys_tasks s)(Peers := Updating (length (sys_outboxes s)))\<rparr>)"
| y_peers_sent: "\<not> sys_crashed s \<Longrightarrow> sys_tasks s Peers = Updating i \<Longrightarrow> sys_outboxes s ! i = [] \<Longrightarrow>
    system_step ip6 GetName interval_ok callbacks s (s\<lparr>sys_tasks := (sys_tasks s)(Peers := Blocking)\<rparr>)"
| y_emit: "\<not> sys_crashed s \<Longrightarrow> i < length (sys_outboxes s) \<Longrightarrow> sys_outboxes s ! i = e # es \<Longrightarrow>
    res \<in> set (emitEvent (informerCtx_done s) timer_fired e (Events (sys_reg s))) \<Longrightarrow>
    system_step ip6 GetName interval_ok callbacks s
      (after_emit res (s\<lparr>sys_outboxes := (sys_outboxes s)[i := es]\<rparr>))"
| y_event: "\<not> sys_crashed s \<Longrightarrow> \<not> sys_loop_done s \<Longrightarrow> chan_recv (Events (sys_reg s)) = Received e ch \<Longrightarrow>
    system_step ip6 GetName interval_ok callbacks s
      (loop_receive e (s\<lparr>sys_reg := (sys_reg s)\<lparr>Events := ch\<rparr>\<rparr>))"
| y_loop_done: "\<not> sys_crashed s \<Longrightarrow> chan_recv (Events (sys_reg s)) = RecvClosed \<Longrightarrow>
    system_step ip6 GetName interval_ok callbacks s (s\<lparr>sys_loop_done := True\<rparr>)"
| y_worker: "\<not> sys_crashed s \<Longrightarrow> i < length (sys_workers s) \<Longrightarrow>
    worker_step ip6 (sys_done s) (sys_workers s ! i, sys_shared s) (w, sh) \<Longrightarrow>
    system_step ip6 GetName interval_ok callbacks s
      (s\<lparr>sys_workers := (sys_workers s)[i := w], sys_shared := sh\<rparr>)"
| y_sched: "\<not> sys_crashed s \<Longrightarrow> i < length (sys_ctls s) \<Longrightarrow>
    sched_step interval_ok (sys_done s \<or> cancelled (schedulers (sys_loop s) ! i))
      (sched_target (schedulers (sys_loop s) ! i)) (sys_ctls s ! i, sys_shared s) (c, sh) \<Longrightarrow>
    system_step ip6 GetName interval_ok callbacks s
      (s\<lparr>sys_ctls := (sys_ctls s)[i := c], sys_shared := sh, sys_crashed := (c = Panicked)\<rparr>)"
| y_handoff: "\<not> sys_crashed s \<Longrightarrow> i < length (sys_workers s) \<Longrightarrow> sys_workers s ! i = Idle \<Longrightarrow>
    j < length (sys_ctls s) \<Longrightarrow> handoff_ready interval_ok (sys_ctls s ! j) (sys_shared s) \<Longrightarrow>
    t = sched_target (schedulers (sys_loop s) ! j) \<Longrightarrow>
    system_step ip6 GetName interval_ok callbacks s
      (s\<lparr>sys_workers := (sys_workers s)[i := Acquiring t], sys_ctls := (sys_ctls s)[j := Waiting],
         sys_shared := (sys_shared s)\<lparr>log := log (sys_shared s) @ probe_begin t\<rparr>\<rparr>)"
| y_listen: "\<not> sys_crashed s \<Longrightarrow> sys_server s = SrvNew \<Longrightarrow>
    system_step ip6 GetName interval_ok callbacks s
      (s\<lparr>sys_server := SrvListening\<rparr>)"
| y_listen_error: "\<not> sys_crashed s \<Longrightarrow> sys_server s \<in> {SrvNew, SrvListening} \<Longrightarrow>
    system_step ip6 GetName interval_ok callbacks s (s\<lparr>sys_server := SrvFailed\<rparr>)"
| y_request: "\<not> sys_crashed s \<Longrightarrow> sys_server s = SrvListening \<Longrightarrow>
    system_step ip6 GetName interval_ok callbacks s (s\<lparr>sys_requests := sys_requests s @ [Accepted]\<rparr>)"
| y_scrape: "\<not> sys_crashed s \<Longrightarrow> i < length (sys_requests s) \<Longrightarrow> sys_requests s ! i = Accepted \<Longrightarrow>
    range_order order (pendingDeletes (cleaner (sys_loop s))) \<Longrightarrow>
    collect_expired order (cleaner (sys_loop s)) = (c, toDelete) \<Longrightarrow>
    system_step ip6 GetName interval_ok callbacks s
      (s\<lparr>sys_loop := (sys_loop s)\<lparr>cleaner := c\<rparr>, 
         sys_requests := (sys_requests s)[i := Purging toDelete]\<rparr>)"
| y_delete: "\<not> sys_crashed s \<Longrightarrow> i < length (sys_requests s) \<Longrightarrow> sys_requests s ! i = Purging (a # as) \<Longrightarrow>
    system_step ip6 GetName interval_ok callbacks s
      (s\<lparr>sys_requests := (sys_requests s)[i := Purging as],
         sys_shared := (sys_shared s)\<lparr>log := log (sys_shared s) @ DeleteTargetMetrics a\<rparr>\<rparr>)"
| y_signal: "\<not> sys_crashed s \<Longrightarrow>
    system_step ip6 GetName interval_ok callbacks s (s\<lparr>sys_done := True\<rparr>)"
| y_main: "\<not> sys_crashed s \<Longrightarrow> main_step s s' \<Longrightarrow>
    system_step ip6 GetName interval_ok callbacks s s'"

inductive system_reachable ::
  "(string \<Rightarrow> bool) \<Rightarrow> (Unstructured \<Rightarrow> string) \<Rightarrow> bool \<Rightarrow> bool \<Rightarrow> 'ctx system \<Rightarrow> 'ctx system \<Rightarrow> bool"
  for ip6 GetName interval_ok callbacks s0 where
  sr_start: "system_reachable ip6 GetName interval_ok callbacks s0 s0"
| sr_step: "system_reachable ip6 GetName interval_ok callbacks s0 s \<Longrightarrow>
    system_step ip6 GetName interval_ok callbacks s s' \<Longrightarrow>
    system_reachable ip6 GetName interval_ok callbacks s0 s'"

inductive_cases main_stepE: "main_step s s'"

interpretation prog: machine "system_step ip6 G ok cb" "system_reachable ip6 G ok cb"
proof
  fix s t :: "'a system"
  show "system_reachable ip6 G ok cb s t \<longleftrightarrow> (system_step ip6 G ok cb)\<^sup>*\<^sup>* s t"
  proof
    show "(system_step ip6 G ok cb)\<^sup>*\<^sup>* s t" if "system_reachable ip6 G ok cb s t"
      using that by induction (auto intro: rtranclp.rtrancl_into_rtrancl)
    show "system_reachable ip6 G ok cb s t" if "(system_step ip6 G ok cb)\<^sup>*\<^sup>* s t"
      using that by induction (auto intro: system_reachable.intros)
  qed
qed

text \<open>A run without callbacks is a run with callbacks that do not come.\<close>

lemma callbacks_optional:
  assumes "system_step ip6 G ok False s s'"
  shows "system_step ip6 G ok cb s s'"
  using assms by cases (auto intro: system_step.intros)

lemma callbacks_optional_run:
  "system_reachable ip6 G ok False s s' \<Longrightarrow> system_reachable ip6 G ok cb s s'"
  by (erule prog.reach_invariant) (auto intro: prog.reach_refl prog.reach_step callbacks_optional)

subsection \<open>When the channels are closed\<close>

definition registry_closed_phase :: "phase \<Rightarrow> bool" where
  "registry_closed_phase ph \<longleftrightarrow> WaitEventLoop \<le> ph"

definition jobs_closed_phase :: "phase \<Rightarrow> bool" where
  "jobs_closed_phase ph \<longleftrightarrow> WaitWorkers \<le> ph"

lemma phase_le_iff:
  "CloseRegistry \<le> ph \<longleftrightarrow>
    ph \<in> {CloseRegistry, WaitEventLoop, CloseJobs, WaitWorkers, ShutdownServer, WaitHandlers, Goodbye}"
  "WaitEventLoop \<le> ph \<longleftrightarrow> ph \<in> {WaitEventLoop, CloseJobs, WaitWorkers, ShutdownServer, WaitHandlers, Goodbye}"
  "CloseJobs \<le> ph \<longleftrightarrow> ph \<in> {CloseJobs, WaitWorkers, ShutdownServer, WaitHandlers, Goodbye}"
  "WaitWorkers \<le> ph \<longleftrightarrow> ph \<in> {WaitWorkers, ShutdownServer, WaitHandlers, Goodbye}"
  "ShutdownServer \<le> ph \<longleftrightarrow> ph \<in> {ShutdownServer, WaitHandlers, Goodbye}"
  "WaitHandlers \<le> ph \<longleftrightarrow> ph \<in> {WaitHandlers, Goodbye}"
  by (cases ph; simp add: less_eq_phase_def)+

lemmas closed_phase_defs = registry_closed_phase_def jobs_closed_phase_def phase_le_iff

text \<open>Main only moves forward, and no other goroutine moves it.\<close>

lemma phase_forward:
  assumes "system_step ip6 G ok cb s s'"
  shows "sys_phase s \<le> sys_phase s'"
  using assms
proof cases
  case (y_emit i e es res timer)
  then show ?thesis by (cases res) (simp_all add: after_emit_def)
next
  case y_main
  from y_main(2) show ?thesis by cases (simp_all add: less_eq_phase_def)
qed (simp_all add: loop_receive_def Let_def)

text \<open>After the start every task can have registered its handlers, and the server can listen.\<close>

definition booted :: "'ctx system \<Rightarrow> 'ctx system" where
  "booted s = s\<lparr>sys_tasks := (\<lambda>_. Syncing), sys_server := SrvListening\<rparr>"

lemma boot_run:
  assumes "\<not> sys_crashed s" "sys_tasks s = (\<lambda>_. Starting)" "sys_server s = SrvNew" and R: "R s"
    and step: "\<And>u v. R u \<Longrightarrow> system_step ip6 G ok cb u v \<Longrightarrow> sys_outboxes v = sys_outboxes u \<Longrightarrow> R v"
  shows "R (booted s)"
proof -
  have reg: "R (u\<lparr>sys_tasks := (sys_tasks u)(k := Syncing)\<rparr>)"
    if "R u" "\<not> sys_crashed u" "sys_tasks u k = Starting" for u k
    using step [OF that(1) y_task [of u k Syncing]] that(2,3) by (simp add: t_register)
  have "(\<lambda>_. Starting)(Peers := Syncing, Statics := Syncing, Slices := Syncing) = (\<lambda>_. Syncing)"
  proof
    show "((\<lambda>_. Starting)(Peers := Syncing, Statics := Syncing, Slices := Syncing)) k = Syncing" for k
      by (cases k) simp_all
  qed
  then have "R (s\<lparr>sys_tasks := \<lambda>_. Syncing\<rparr>)"
    using reg [OF reg [OF reg [OF R, of Peers], of Statics], of Slices] assms(1,2) by simp
  from step [OF this y_listen] show ?thesis
    using assms(1,3) by (simp add: booted_def)
qed

text \<open>Once the context is done, what a task still has to send is given up, and the task returns.\<close>

lemma outbox_given_up:
  assumes "\<not> sys_crashed s" "sys_done s" "i < length (sys_outboxes s)"
  shows "system_reachable ip6 G ok cb s (s\<lparr>sys_outboxes := (sys_outboxes s)[i := []]\<rparr>)"
  using assms
proof (induction "sys_outboxes s ! i" arbitrary: s)
  case Nil
  then have "s\<lparr>sys_outboxes := (sys_outboxes s)[i := []]\<rparr> = s"
    by (metis (no_types, lifting) list_update_id system.surjective system.update_convs(2))
  then show ?case by (simp add: system_reachable.sr_start)
next
  case (Cons e es)
  let ?s = "s\<lparr>sys_outboxes := (sys_outboxes s)[i := es]\<rparr>"
  have "GaveUpCtx \<in> set (emitEvent (informerCtx_done s) False e (Events (sys_reg s)))"
    using Cons.prems(2) by (simp add: emitEvent_def)
  from y_emit [OF Cons.prems(1,3) Cons.hyps(2) [symmetric] this] have step: "system_step ip6 G ok cb s ?s"
    by (simp add: after_emit_def)
  have "system_reachable ip6 G ok cb ?s (?s\<lparr>sys_outboxes := (sys_outboxes ?s)[i := []]\<rparr>)"
    by (rule Cons.hyps(1)) (use Cons.prems in simp_all)
  with step show ?case
    using prog.reach_trans [OF prog.reach_one] by fastforce
qed

lemma task_returns:
  assumes "\<not> sys_crashed s" "sys_done s" "\<And>i. sys_tasks s k \<noteq> Updating i"
  shows "\<exists>res. system_reachable ip6 G ok cb s (s\<lparr>sys_tasks := (sys_tasks s)(k := Returned res)\<rparr>)"
proof -
  let ?to = "\<lambda>t. s\<lparr>sys_tasks := (sys_tasks s)(k := t)\<rparr>"
  have one: "system_reachable ip6 G ok cb s (?to t)" if "task_step True k (sys_tasks s k) t" for t
    using y_task [OF assms(1), of k t] that assms(2) by (simp add: prog.reach_one)
  show ?thesis
  proof (cases "sys_tasks s k")
    case Starting
    then have "system_reachable ip6 G ok cb s (?to Syncing)"
      by (intro one) (simp add: t_register)
    moreover have "system_step ip6 G ok cb (?to Syncing) (?to (Returned (task_result k None False)))"
      using y_task [of "?to Syncing" k "Returned (task_result k None False)"] assms(1,2) t_cancelled
      by simp
    ultimately show ?thesis by (blast intro: prog.reach_step)
  next
    case (Returned res)
    then have "?to (Returned res) = s" by (metis (no_types, lifting) fun_upd_triv system.surjective system.update_convs(3))
    then show ?thesis using prog.reach_refl by metis
  qed (use one assms(3) in \<open>auto intro: t_cancelled t_unblock\<close>)
qed

lemma tasks_return:
  assumes "\<not> sys_crashed s" "sys_done s" "\<And>k i. sys_tasks s k \<noteq> Updating i"
  shows "\<exists>tasks. all_returned tasks \<and> system_reachable ip6 G ok cb s (s\<lparr>sys_tasks := tasks\<rparr>)"
proof -
  obtain a where a: "system_reachable ip6 G ok cb s (s\<lparr>sys_tasks := (sys_tasks s)(Peers := Returned a)\<rparr>)"
    using task_returns [OF assms(1,2), of Peers] assms(3) by blast
  let ?a = "s\<lparr>sys_tasks := (sys_tasks s)(Peers := Returned a)\<rparr>"
  obtain b where b: "system_reachable ip6 G ok cb ?a (?a\<lparr>sys_tasks := (sys_tasks ?a)(Statics := Returned b)\<rparr>)"
    using task_returns [of ?a Statics ip6 G ok cb] assms by auto
  let ?b = "?a\<lparr>sys_tasks := (sys_tasks ?a)(Statics := Returned b)\<rparr>"
  obtain c where c: "system_reachable ip6 G ok cb ?b (?b\<lparr>sys_tasks := (sys_tasks ?b)(Slices := Returned c)\<rparr>)"
    using task_returns [of ?b Slices ip6 G ok cb] assms by auto
  have "system_reachable ip6 G ok cb s (?b\<lparr>sys_tasks := (sys_tasks ?b)(Slices := Returned c)\<rparr>)"
    using prog.reach_trans [OF prog.reach_trans [OF a b] c] .
  then show ?thesis by (intro exI conjI) (simp_all add: all_returned_def)
qed

text \<open>Each channel is closed once, by main, in its phase; and what main waited for holds.\<close>

definition phase_inv :: "'ctx system \<Rightarrow> bool" where
  "phase_inv s \<longleftrightarrow>
     (closed (Events (sys_reg s)) \<longleftrightarrow> registry_closed_phase (sys_phase s)) \<and>
     (closed (jobs (sys_shared s)) \<longleftrightarrow> jobs_closed_phase (sys_phase s)) \<and>
     (sys_phase s \<noteq> Serving \<longrightarrow> sys_done s) \<and>
     (CloseRegistry \<le> sys_phase s \<longrightarrow> all_returned (sys_tasks s)) \<and>
     (\<forall>k i. sys_tasks s k = Updating i \<longrightarrow> k = Peers \<and> i < length (sys_outboxes s)) \<and>
     (CloseJobs \<le> sys_phase s \<longrightarrow> sys_loop_done s) \<and>
     (sys_loop_done s \<longrightarrow> registry_closed_phase (sys_phase s)) \<and>
     (ShutdownServer \<le> sys_phase s \<longrightarrow> set (sys_workers s) \<subseteq> {Exited}) \<and>
     (WaitHandlers \<le> sys_phase s \<longrightarrow> sys_server s = SrvClosed) \<and>
     length (sys_ctls s) = length (schedulers (sys_loop s))"

lemma Events_frame [frame_simps]:
  "Events (fst (informer_step G r x)) = Events r"
proof -
  have ops: "Events (fst (registry_step r op)) = Events r" for op
  proof (cases op)
    case (OpUpdatePeers order peers)
    have "Events (fst (fold peers_step order (r\<lparr>clusterPodIPs := peers\<rparr>, []))) = Events r"
      by (rule fold_loop_invariant)
        (auto simp: peers_step_def Let_def split: prod.splits option.splits)
    then show ?thesis by (simp add: OpUpdatePeers UpdatePeers_def)
  qed (auto simp: UpdateFromEndpointSlice_state RemoveEndpointSlice_state Add_state Remove_def Let_def
      split: option.splits)
  show ?thesis by (cases "informer_op G x") (simp_all add: informer_step_op ops)
qed

lemma emit_closed:
  "Delivered ch' \<in> set (emitEvent b f e ch) \<Longrightarrow> \<not> closed ch \<and> \<not> closed ch' \<and> buf ch' = buf ch @ [e]"
  "EmitPanic \<in> set (emitEvent b f e ch) \<Longrightarrow> closed ch"
  by (auto simp: emitEvent_def send_case_def chan_send_def split: if_splits)

lemma worker_step_closed:
  "worker_step ip6 b (w, s) (w', s') \<Longrightarrow> closed (jobs s') = closed (jobs s) \<and> w \<noteq> Exited"
  by (auto elim!: worker_stepE simp: chan_recv_Received)

lemma sched_step_closed:
  "sched_step ok b t (c, s) (c', s') \<Longrightarrow> closed (jobs s') = closed (jobs s)"
  by (erule sched_step_effect) simp_all

lemma handle_event_schedulers:
  "length (schedulers st) \<le> length (schedulers (handle_event e st))"
  "\<not> IsAdded e \<Longrightarrow> length (schedulers (handle_event e st)) = length (schedulers st)"
  by (auto simp: handle_event_def spawn_def cancelFunc_def Let_def split: option.splits)

lemma phase_inv_start: "phase_inv (start_system self n q d)"
  by (simp add: phase_inv_def start_system_def NewRegistry_def make_chan_def closed_phase_defs
      closed_phase_defs new_Loop_def)

lemma phase_inv_main:
  assumes "phase_inv s" "main_step s s'"
  shows "phase_inv s'"
  using assms(2)
  by cases (use assms(1) in \<open>auto simp: phase_inv_def closed_phase_defs Close_def chan_close_def
      frame_simps split: if_splits\<close>)

lemma phase_inv_outbox:
  assumes "phase_inv s" "Events r = Events (sys_reg s)"
  shows "phase_inv (s\<lparr>sys_reg := r, sys_outboxes := sys_outboxes s @ [events]\<rparr>)"
proof -
  have "sys_tasks s k = Updating i \<Longrightarrow> i < Suc (length (sys_outboxes s))" for k i
    using assms(1) by (simp add: phase_inv_def less_SucI)
  with assms show ?thesis by (simp add: phase_inv_def)
qed

lemma phase_inv_updating:
  assumes "phase_inv s" "\<not> all_returned (sys_tasks s)" "i < length (sys_outboxes s)"
  shows "phase_inv (s\<lparr>sys_tasks := (sys_tasks s)(Peers := Updating i)\<rparr>)"
  using assms by (auto simp: phase_inv_def)

lemma phase_inv_step:
  assumes "phase_inv s" "system_step ip6 G ok cb s s'"
  shows "phase_inv s'"
  using assms(2)
proof cases
  case (y_callback x r events)
  then have "Events r = Events (sys_reg s)" using Events_frame [of G "sys_reg s" x] by simp
  with y_callback assms(1) show ?thesis by (simp add: phase_inv_outbox)
next
  case (y_task k t)
  then have "\<not> all_returned (sys_tasks s)" by (auto simp: all_returned_iff dest: task_step_running)
  with y_task assms(1) show ?thesis by (auto simp: phase_inv_def elim: task_stepE)
next
  case (y_peers order store r events)
  then have "\<not> all_returned (sys_tasks s)" by (simp add: all_returned_def)
  moreover have "Events r = Events (sys_reg s)"
    using Events_frame [of G "sys_reg s" "PeersChanged store order"] y_peers by simp
  ultimately show ?thesis
    using y_peers(1) phase_inv_updating [OF phase_inv_outbox [OF assms(1)], of r events
        "length (sys_outboxes s)"] by simp
next
  case (y_peers_sent i)
  then have "\<not> all_returned (sys_tasks s)" by (simp add: all_returned_def)
  with y_peers_sent assms(1) show ?thesis by (auto simp: phase_inv_def)
next
  case (y_emit i e es res timer)
  with assms(1) show ?thesis
    by (cases res) (auto simp: phase_inv_def after_emit_def dest: emit_closed)
next
  case (y_event e ch)
  with assms(1) handle_event_schedulers(1) [of "sys_loop s" e] show ?thesis
    by (auto simp: phase_inv_def loop_receive_def Let_def chan_recv_Received)
next
  case y_loop_done
  then have "closed (Events (sys_reg s))" by (simp add: chan_recv_def split: list.splits if_splits)
  with y_loop_done assms(1) show ?thesis by (simp add: phase_inv_def)
next
  case (y_worker i w sh)
  have "\<not> ShutdownServer \<le> sys_phase s"
    using nth_mem [OF y_worker(3)] worker_step_closed [OF y_worker(4)] assms(1)
    by (auto simp: phase_inv_def)
  with y_worker assms(1) worker_step_closed [OF y_worker(4)] show ?thesis
    by (simp add: phase_inv_def)
next
  case (y_sched i c sh)
  with assms(1) sched_step_closed [OF y_sched(4)] show ?thesis by (simp add: phase_inv_def)
next
  case (y_handoff i j t)
  have "\<not> ShutdownServer \<le> sys_phase s"
    using nth_mem [OF y_handoff(3)] y_handoff(4) assms(1) by (auto simp: phase_inv_def)
  with y_handoff assms(1) show ?thesis by (simp add: phase_inv_def)
next
  case (y_main)
  with assms(1) show ?thesis by (simp add: phase_inv_main)
qed (use assms(1) in \<open>auto simp: phase_inv_def\<close>)

lemma phase_inv_reachable:
  "system_reachable ip6 G ok cb s0 s \<Longrightarrow> phase_inv s0 \<Longrightarrow> phase_inv s"
  by (rule prog.reach_invariant) (auto intro: phase_inv_step)

subsection \<open>A quiet shutdown\<close>

text \<open>
  When main passes the wait for the schedulers, the shutdown is quiet if nothing can start
  one any more: no callback is sending events, peer discovery has processed the peers after
  its sync, and no addition waits in the event channel.
\<close>

definition quiet :: "'ctx system \<Rightarrow> bool" where
  "quiet s \<longleftrightarrow> set (sys_ctls s) \<subseteq> {Stopped} \<and> set (sys_outboxes s) \<subseteq> {[]} \<and>
     sys_tasks s Peers \<notin> {Starting, Syncing} \<and>
     (\<forall>e \<in> set (buf (Events (sys_reg s))). \<not> IsAdded e) \<and> \<not> sys_crashed s"

lemma quiet_main:
  "quiet s \<Longrightarrow> phase_inv s \<Longrightarrow> main_step s s' \<Longrightarrow> quiet s'"
  by (erule main_stepE)
    (auto simp: quiet_def phase_inv_def closed_phase_defs Close_def
      chan_close_def split: if_splits)

lemma quiet_step:
  assumes "quiet s" "phase_inv s" "system_step ip6 G ok False s s'"
  shows "quiet s'"
  using assms(3)
proof cases
  case (y_emit i e es res timer)
  then show ?thesis
    using nth_mem [OF y_emit(3)] assms(1) by (auto simp: quiet_def)
next
  case (y_task k t)
  then show ?thesis using assms(1) by (auto simp: quiet_def elim: task_stepE)
next
  case (y_event e ch)
  then have "e \<in> set (buf (Events (sys_reg s)))" "set (buf ch) \<subseteq> set (buf (Events (sys_reg s)))"
    by (auto simp: chan_recv_Received)
  moreover from this have "\<not> IsAdded e" using assms(1) by (simp add: quiet_def)
  ultimately show ?thesis
    using y_event assms(1,2) handle_event_schedulers(2) [of e "sys_loop s"]
    by (auto simp: quiet_def loop_receive_def Let_def phase_inv_def)
next
  case (y_sched i c sh)
  have "sys_ctls s ! i \<in> set (sys_ctls s)" using y_sched by simp
  then have "sys_ctls s ! i = Stopped" using assms(1) by (auto simp: quiet_def)
  then show ?thesis using y_sched(4) by (auto elim: sched_stepE)
next
  case (y_handoff i j t)
  have "sys_ctls s ! j \<in> set (sys_ctls s)" using y_handoff(5) by simp
  then have "sys_ctls s ! j = Stopped" using assms(1) by (auto simp: quiet_def)
  with y_handoff show ?thesis by (simp add: handoff_ready_def)
next
  case y_main
  with assms(1,2) show ?thesis by (simp add: quiet_main)
qed (use assms(1) in \<open>simp_all add: quiet_def\<close>)

lemma quiet_reachable:
  "system_reachable ip6 G ok False s s' \<Longrightarrow> quiet s \<Longrightarrow> phase_inv s \<Longrightarrow> quiet s'"
  by (erule prog.reach_invariant) (auto intro: quiet_step phase_inv_reachable)

subsection \<open>Properties\<close>




definition ex_stopping :: "unit system" where
  "ex_stopping = (start_system [] 2 3 ex_dispatcher)\<lparr>sys_done := True, sys_phase := CancelSchedulers\<rparr>"

lemma ex_stopping_reachable:
  "system_reachable ip6 G ok cb (start_system [] 2 3 ex_dispatcher) ex_stopping"
proof -
  let ?s0 = "start_system [] 2 3 ex_dispatcher"
  have start: "\<not> sys_crashed ?s0" "sys_phase ?s0 = Serving" by (simp_all add: start_system_def)
  have 1: "system_reachable ip6 G ok cb ?s0 (?s0\<lparr>sys_done := True\<rparr>)"
    by (rule system_reachable.sr_step [OF system_reachable.sr_start]) (rule y_signal, rule start)
  have "main_step (?s0\<lparr>sys_done := True\<rparr>) (?s0\<lparr>sys_done := True, sys_phase := CancelSchedulers\<rparr>)"
    using main_step.m_signal [of "?s0\<lparr>sys_done := True\<rparr>"] start by simp
  then have "system_step ip6 G ok cb (?s0\<lparr>sys_done := True\<rparr>) ex_stopping"
    using start by (intro y_main) (simp_all add: ex_stopping_def)
  with 1 show ?thesis by (rule system_reachable.sr_step)
qed


text \<open>The start of a shutdown that is not quiet: one addition waits in the event channel.\<close>

definition late_target :: "Target" where
  "late_target = \<lparr>Name = ''db'', Address = ''tcp://db:5432'', Scheme = ''tcp'', Static = True,
     InsecureSkipVerify = False\<rparr>"

definition late_registry :: Registry where
  "late_registry = fst (Add late_target (NewRegistry []))"

lemma late_callback:
  "informer_step ex_GetName (NewRegistry []) (CRDAdded (Object (ex_crd ''db:5432'')))
    = (late_registry, [added late_target])"
  "Events late_registry = make_chan 1000"
proof -
  have "snd (Add late_target (NewRegistry [])) = [added late_target]"
    by (simp add: Add_def Let_def NewRegistry_def late_target_def shouldProcessTargetLocked_def
        evalShardingOwner_def)
  then show "informer_step ex_GetName (NewRegistry []) (CRDAdded (Object (ex_crd ''db:5432'')))
    = (late_registry, [added late_target])"
    by (simp add: static_handler_ops static_add_op_def parse_ex_crd late_registry_def late_target_def
        prod_eq_iff)
  show "Events late_registry = make_chan 1000"
    by (simp add: late_registry_def Add_state) (simp add: NewRegistry_def)
qed

text \<open>
  The addition is still in the channel when main, with no scheduler to wait for, has closed
  the channel and waits for the event loop.
\<close>

definition late_closing :: "(task_name \<Rightarrow> task) \<Rightarrow> nat \<Rightarrow> nat \<Rightarrow> 'ctx Dispatcher \<Rightarrow> 'ctx system" where
  "late_closing tasks n q d =
     \<lparr>sys_reg = late_registry\<lparr>Events := (make_chan 1000)\<lparr>buf := [added late_target], closed := True\<rparr>\<rparr>,
      sys_outboxes = [[]], sys_tasks = tasks, sys_loop = new_Loop, sys_loop_done = False, sys_ctls = [],
      sys_workers = replicate n Idle,
      sys_shared = \<lparr>jobs = (make_chan q)\<lparr>closed := False\<rparr>, disp = d, log = []\<rparr>,
      sys_server = SrvListening, sys_requests = [], sys_done = True, sys_phase = WaitEventLoop, sys_crashed = False\<rparr>"

lemma late_closing_reachable:
  "\<exists>tasks. all_returned tasks \<and>
    system_reachable ip6 ex_GetName True True (start_system [] n q d) (late_closing tasks n q d)"
proof -
  let ?R = "system_reachable ip6 ex_GetName True True (start_system [] n q d)"
  let ?ch = "(make_chan 1000 :: TargetEvent chan)\<lparr>buf := [added late_target]\<rparr>"
  let ?q = "make_chan q :: Job chan"
  let ?S = "\<lambda>r out tk dn ph. \<lparr>sys_reg = r, sys_outboxes = out, sys_tasks = tk, sys_loop = new_Loop,
      sys_loop_done = False, sys_ctls = [], sys_workers = replicate n Idle,
      sys_shared = \<lparr>jobs = ?q\<lparr>closed := False\<rparr>, disp = d, log = []\<rparr>, sys_server = SrvListening,
      sys_requests = [], sys_done = dn, sys_phase = ph, sys_crashed = False\<rparr>"
  let ?up = "\<lambda>_. Syncing"
  note step = system_reachable.sr_step
  have "?R (booted (start_system [] n q d))"
    by (rule boot_run [where R = ?R and ?ip6.0 = ip6 and G = ex_GetName and ok = True and cb = True])
      (simp_all add: start_system_def prog.reach_refl step)
  then have 0: "?R (?S (NewRegistry []) [] ?up False Serving)"
    by (simp add: booted_def start_system_def make_chan_def)
  have 1: "?R (?S late_registry [[added late_target]] ?up False Serving)"
    using step [OF 0 y_callback [of _ True "CRDAdded (Object (ex_crd ''db:5432''))" ex_GetName
        late_registry "[added late_target]"]] late_callback(1) by simp
  have "Delivered ?ch \<in> set (emitEvent False False (added late_target) (Events late_registry))"
    by (simp add: late_callback(2) emitEvent_def send_case_def channel_defs)
  then have 2: "?R (?S (late_registry\<lparr>Events := ?ch\<rparr>) [[]] ?up False Serving)"
    using step [OF 1 y_emit [of _ 0 "added late_target" "[]" "Delivered ?ch" False]]
    by (simp add: after_emit_def)
  have 3: "?R (?S (late_registry\<lparr>Events := ?ch\<rparr>) [[]] ?up True Serving)"
    using step [OF 2 y_signal] by simp
  have 4: "?R (?S (late_registry\<lparr>Events := ?ch\<rparr>) [[]] ?up True CancelSchedulers)"
    using step [OF 3 y_main [OF _ main_step.m_signal]] by simp
  have "range_order [] (activeSchedulers new_Loop)" "cancel_all [] new_Loop = new_Loop"
    by (simp_all add: range_order_def new_Loop_def cancel_all_def)
  then have 5: "?R (?S (late_registry\<lparr>Events := ?ch\<rparr>) [[]] ?up True WaitSchedulers)"
    using step [OF 4 y_main [OF _ main_step.m_cancel [of _ "[]"]]] by simp
  have 6: "?R (?S (late_registry\<lparr>Events := ?ch\<rparr>) [[]] ?up True WaitInformers)"
    using step [OF 5 y_main [OF _ main_step.m_schedulers]] by simp
  obtain tasks where tasks: "all_returned tasks"
    and 7: "?R (?S (late_registry\<lparr>Events := ?ch\<rparr>) [[]] tasks True WaitInformers)"
    using tasks_return [of "?S (late_registry\<lparr>Events := ?ch\<rparr>) [[]] ?up True WaitInformers"]
      prog.reach_trans [OF 6] by fastforce
  have 8: "?R (?S (late_registry\<lparr>Events := ?ch\<rparr>) [[]] tasks True CloseRegistry)"
    using step [OF 7 y_main [OF _ main_step.m_informers]] tasks by simp
  have "Close (late_registry\<lparr>Events := ?ch\<rparr>) = Some (late_registry\<lparr>Events := ?ch\<lparr>closed := True\<rparr>\<rparr>)"
    by (simp add: Close_def channel_defs)
  then have "?R (late_closing tasks n q d)"
    using step [OF 8 y_main [OF _ main_step.m_close_registry]] by (simp add: late_closing_def)
  with tasks show ?thesis by blast
qed

text \<open>
  C16. A shutdown that is not quiet can panic: a target announced just before the signal is
  still in the event channel while main, with no scheduler to wait for, passes that wait,
  waits for the event loop (which now starts a scheduler) and closes the job queue; the new
  scheduler's first probe is sent on the closed queue. This run exists for any number of
  workers, any queue and any dispatcher, with a valid probe interval.
\<close>

theorem shutdown_race_panics:
  "\<exists>s. system_reachable ip6 ex_GetName True True (start_system [] n q d) s \<and>
     sys_crashed s \<and> sys_phase s = WaitWorkers \<and> sys_ctls s = [Panicked]"
proof -
  let ?R = "system_reachable ip6 ex_GetName True True (start_system [] n q d)"
  let ?ch = "(make_chan 1000 :: TargetEvent chan)\<lparr>buf := [added late_target]\<rparr>"
  let ?closed = "(make_chan 1000 :: TargetEvent chan)\<lparr>closed := True\<rparr>"
  let ?q = "make_chan q :: Job chan"
  let ?sh = "\<lambda>c. \<lparr>jobs = ?q\<lparr>closed := c\<rparr>, disp = d, log = []\<rparr>"
  let ?l = "handle_event (added late_target) new_Loop"
  obtain tasks where late: "?R (late_closing tasks n q d)"
    using late_closing_reachable by blast
  let ?S = "\<lambda>ld ctls c ph cr. \<lparr>sys_reg = late_registry\<lparr>Events := ?closed\<rparr>, sys_outboxes = [[]],
      sys_tasks = tasks, sys_loop = ?l, sys_loop_done = ld, sys_ctls = ctls, sys_workers = replicate n Idle,
      sys_shared = ?sh c, sys_server = SrvListening, sys_requests = [], sys_done = True, sys_phase = ph, sys_crashed = cr\<rparr>"
  note step = system_reachable.sr_step
  have "chan_recv (?ch\<lparr>closed := True\<rparr>) = Received (added late_target) ?closed"
    by (simp add: channel_defs)
  moreover have "length (schedulers ?l) = 1"
    by (simp add: handle_event_def spawn_def new_Loop_def Let_def)
  ultimately have 9: "?R (?S False [Fresh] False WaitEventLoop False)"
    using step [OF late y_event [of _ "added late_target" ?closed]]
    by (simp add: loop_receive_def Let_def late_closing_def)
  have 10: "?R (?S True [Fresh] False WaitEventLoop False)"
    using step [OF 9 y_loop_done] by (simp add: channel_defs)
  have 11: "?R (?S True [Fresh] False CloseJobs False)"
    using step [OF 10 y_main [OF _ main_step.m_event_loop]] by simp
  have "chan_close (?q\<lparr>closed := False\<rparr>) = Some (?q\<lparr>closed := True\<rparr>)"
    by (simp add: chan_close_def)
  then have 12: "?R (?S True [Fresh] True WaitWorkers False)"
    using step [OF 11 y_main [OF _ main_step.m_close_jobs]] by simp
  have "EnqPanic \<in> set (enqueue True t (?q\<lparr>closed := True\<rparr>))" for t
    by (simp add: enqueue_def chan_send_def)
  then have "sched_step True True t (Fresh, ?sh True) (Panicked, ?sh True)" for t
    using sched_step.s_first [of True EnqPanic True t "?sh True"] by simp
  then have "?R (?S True [Panicked] True WaitWorkers True)"
    using step [OF 12 y_sched [of _ 0 True Panicked]] by simp
  then show ?thesis by (intro exI conjI) (assumption | simp)+
qed

end
