(* ===== verification/PoolRefinement.thy ===== *)
theory PoolRefinement
  imports System
begin

section \<open>The program refines the pool of workers and schedulers\<close>

text \<open>
  Seen through its goroutines only, the program is a pool: the abstraction forgets the
  registry, the outboxes, the maps of the event loop and the phase of main, and pairs every
  scheduler of the loop with its control state. Each step of the program is a step of the
  pool, several (main cancels every scheduler at once), or none, so every fact about
  reachable pools holds for the program, during the shutdown as well.
\<close>

definition procs :: "Scheduler list \<Rightarrow> sched list \<Rightarrow> sched_proc list" where
  "procs ss cs =
     map2 (\<lambda>s c. \<lparr>sp_target = sched_target s, sp_ctl = c, sp_cancelled = cancelled s\<rparr>) ss cs"

definition pool_of :: "'ctx system \<Rightarrow> 'ctx pool" where
  "pool_of s =
     \<lparr>pool_workers = sys_workers s, pool_scheds = procs (schedulers (sys_loop s)) (sys_ctls s),
      pool_done = sys_done s, pool_shared = sys_shared s\<rparr>"

lemma length_procs: "length (procs ss cs) = min (length ss) (length cs)"
  by (simp add: procs_def)

lemma nth_procs:
  "i < length ss \<Longrightarrow> i < length cs \<Longrightarrow>
    procs ss cs ! i = \<lparr>sp_target = sched_target (ss ! i), sp_ctl = cs ! i, sp_cancelled = cancelled (ss ! i)\<rparr>"
  by (simp add: procs_def)

lemma procs_snoc:
  "length ss = length cs \<Longrightarrow>
    procs (ss @ [s]) (cs @ [c]) =
      procs ss cs @ [\<lparr>sp_target = sched_target s, sp_ctl = c, sp_cancelled = cancelled s\<rparr>]"
  by (simp add: procs_def)

lemma procs_ctl:
  "i < length ss \<Longrightarrow> length ss = length cs \<Longrightarrow>
    procs ss (cs[i := c]) = (procs ss cs)[i := (procs ss cs ! i)\<lparr>sp_ctl := c\<rparr>]"
  by (rule nth_equalityI) (auto simp: length_procs nth_procs nth_list_update)

lemma procs_cancel:
  "i < length ss \<Longrightarrow> length ss = length cs \<Longrightarrow>
    procs (ss[i := (ss ! i)\<lparr>cancelled := True\<rparr>]) cs =
      (procs ss cs)[i := (procs ss cs ! i)\<lparr>sp_cancelled := True\<rparr>]"
  by (rule nth_equalityI) (auto simp: length_procs nth_procs nth_list_update)

lemma pool_reachable_cancel:
  assumes "pool_reachable ip6 ok p0 p" "pool_scheds p = procs ss cs" "length ss = length cs"
  shows "pool_reachable ip6 ok p0
    (p\<lparr>pool_scheds := procs (ss[i := (ss ! i)\<lparr>cancelled := True\<rparr>]) cs\<rparr>)"
proof (cases "i < length ss")
  case True
  then have "pool_step ip6 ok p (p\<lparr>pool_scheds := procs (ss[i := (ss ! i)\<lparr>cancelled := True\<rparr>]) cs\<rparr>)"
    using pool_step.p_cancel [of i p ip6 ok] assms(2,3) by (simp add: procs_cancel length_procs)
  with assms(1) show ?thesis by (rule pool_reachable.pr_step)
next
  case False
  then have "p\<lparr>pool_scheds := procs (ss[i := (ss ! i)\<lparr>cancelled := True\<rparr>]) cs\<rparr> = p"
    using assms(2) by (simp add: list_update_beyond)
  with assms(1) show ?thesis by simp
qed

text \<open>The schedulers of the loop after the cancel functions of \<open>order\<close> have been called.\<close>

lemma pool_reachable_cancel_all:
  assumes "pool_reachable ip6 ok p0 p" "pool_scheds p = procs (schedulers l) cs"
    and "length (schedulers l) = length cs"
  shows "pool_reachable ip6 ok p0 (p\<lparr>pool_scheds := procs (schedulers (cancel_all order l)) cs\<rparr>)"
  using assms
proof (induction order arbitrary: l p)
  case Nil
  then have "p\<lparr>pool_scheds := procs (schedulers (cancel_all [] l)) cs\<rparr> = p"
    by (simp add: cancel_all_def)
  with Nil show ?case by simp
next
  case (Cons a order)
  let ?l = "case activeSchedulers l a of Some i \<Rightarrow> cancelFunc i l | None \<Rightarrow> l"
  let ?p = "p\<lparr>pool_scheds := procs (schedulers ?l) cs\<rparr>"
  have "pool_reachable ip6 ok p0 ?p"
  proof (cases "activeSchedulers l a")
    case None
    then have "?p = p" using Cons.prems(2) by simp
    with Cons.prems(1) show ?thesis by simp
  next
    case (Some i)
    then show ?thesis
      using pool_reachable_cancel [OF Cons.prems, of i] by (simp add: cancelFunc_def)
  qed
  moreover have "length (schedulers ?l) = length cs"
    using Cons.prems(3) by (simp add: cancelFunc_def split: option.split)
  moreover have "cancel_all (a # order) l = cancel_all order ?l" by (simp add: cancel_all_def)
  ultimately show ?case using Cons.IH [of ?p ?l] by simp
qed

lemma handle_event_schedulers_cases:
  "schedulers (handle_event e l) = schedulers l \<or>
   schedulers (handle_event e l) = schedulers l @ [\<lparr>sched_target = evt_target e, cancelled = False\<rparr>] \<or>
   (\<exists>i. schedulers (handle_event e l) = (schedulers l)[i := (schedulers l ! i)\<lparr>cancelled := True\<rparr>])"
  by (cases "activeSchedulers l (evt_address e)")
    (auto simp: handle_event_def spawn_def cancelFunc_def Let_def)

lemma pool_reachable_handle:
  assumes "pool_reachable ip6 ok p0 p" "pool_scheds p = procs (schedulers l) cs"
    and "length (schedulers l) = length cs"
  shows "pool_reachable ip6 ok p0 (p\<lparr>pool_scheds :=
    procs (schedulers (handle_event e l))
      (cs @ replicate (length (schedulers (handle_event e l)) - length cs) Fresh)\<rparr>)"
proof -
  consider (same) "schedulers (handle_event e l) = schedulers l"
    | (start) "schedulers (handle_event e l) =
        schedulers l @ [\<lparr>sched_target = evt_target e, cancelled = False\<rparr>]"
    | (stop) i where "schedulers (handle_event e l) =
        (schedulers l)[i := (schedulers l ! i)\<lparr>cancelled := True\<rparr>]"
    using handle_event_schedulers_cases [of e l] by blast
  then show ?thesis
  proof cases
    case same
    then have "p\<lparr>pool_scheds := procs (schedulers (handle_event e l)) cs\<rparr> = p" using assms(2) by simp
    with same assms(1,3) show ?thesis by simp
  next
    case start
    then show ?thesis
      using pool_reachable.pr_step [OF assms(1) pool_step.p_start] assms(2,3) by (simp add: procs_snoc)
  next
    case stop
    then show ?thesis
      using pool_reachable_cancel [OF assms] assms(3) by simp
  qed
qed

lemma pool_of_main:
  assumes "main_step s s'" "phase_inv s" "pool_reachable ip6 ok p0 (pool_of s)"
  shows "pool_reachable ip6 ok p0 (pool_of s')"
  using assms(1)
proof cases
  case (m_cancel order)
  then show ?thesis
    using pool_reachable_cancel_all [OF assms(3), of "sys_loop s" "sys_ctls s" order] assms(2)
    by (simp add: pool_of_def phase_inv_def)
next
  case (m_close_jobs ch)
  then show ?thesis
    using pool_reachable.pr_step [OF assms(3) pool_step.p_close] by (simp add: pool_of_def)
qed (use assms(3) in \<open>simp_all add: pool_of_def\<close>)

lemma pool_of_step:
  assumes "system_step ip6 G ok cb s s'" "phase_inv s" "pool_reachable ip6 ok p0 (pool_of s)"
  shows "pool_reachable ip6 ok p0 (pool_of s')"
proof -
  note step = pool_reachable.pr_step [OF assms(3)]
  have len: "length (schedulers (sys_loop s)) = length (sys_ctls s)"
    using assms(2) by (simp add: phase_inv_def)
  show ?thesis
    using assms(1)
  proof cases
    case (y_emit i e es res timer)
    then show ?thesis using assms(3) by (cases res) (simp_all add: pool_of_def after_emit_def)
  next
    case (y_event e ch)
    then show ?thesis
      using pool_reachable_handle [OF assms(3) _ len, of e] len
      by (simp add: pool_of_def loop_receive_def Let_def)
  next
    case (y_worker i w sh)
    then show ?thesis
      using step [OF pool_step.p_worker, of i w sh] by (simp add: pool_of_def)
  next
    case (y_sched i c sh)
    then show ?thesis
      using step [OF pool_step.p_sched [OF _ refl], of i c sh] len
      by (simp add: pool_of_def length_procs nth_procs procs_ctl)
  next
    case (y_handoff i j t)
    then show ?thesis
      using step [OF pool_step.p_handoff [OF _ _ _ refl], of i j] len
      by (simp add: pool_of_def length_procs nth_procs procs_ctl)
  next
    case (y_delete i a as)
    then show ?thesis
      using step [OF pool_step.p_purge] by (simp add: pool_of_def)
  next
    case y_signal
    then show ?thesis using step [OF pool_step.p_cancel_all] by (simp add: pool_of_def)
  next
    case y_main
    then show ?thesis using pool_of_main assms(2,3) by blast
  qed (use assms(3) in \<open>simp_all add: pool_of_def\<close>)
qed

text \<open>The program simulates the pool, so it reaches no pool that the pool does not.\<close>

interpretation pool_view: simulation "system_step ip6 G ok cb" "system_reachable ip6 G ok cb"
  "pool_step ip6 ok" "pool_reachable ip6 ok" pool_of phase_inv
proof
  fix s s' :: "'a system"
  assume "phase_inv s" "system_step ip6 G ok cb s s'"
  then show "phase_inv s'" "pool_reachable ip6 ok (pool_of s) (pool_of s')"
    by (auto intro: phase_inv_step pool_of_step pool.reach_refl)
qed

lemma pool_of_start: "pool_of (start_system self n q d) = start_pool n q d"
  by (simp add: pool_of_def start_system_def start_pool_def procs_def new_Loop_def)

lemma pool_of_reachable:
  "system_reachable ip6 G ok cb (start_system self n q d) s \<Longrightarrow>
    pool_reachable ip6 ok (start_pool n q d) (pool_of s)"
  using pool_view.simulates [OF _ phase_inv_start] by (fastforce simp: pool_of_start)

end
