(* ===== verification/Delivery.thy ===== *)
theory Delivery
  imports System
begin

section \<open>Delivery of events while everything runs\<close>

text \<open>
  The registry emits its events after it has left the critical section, through a bounded
  channel. The backlog is what was emitted and not yet handled: the buffer of the channel and
  the outboxes. When callbacks do not overlap and no send is given up, the backlog always
  leads from the running schedulers to the targets the registry wants probed, whatever the
  other goroutines do in between; with overlapping callbacks it does not.
\<close>

definition backlog :: "'ctx system \<Rightarrow> TargetEvent list" where
  "backlog s = buf (Events (sys_reg s)) @ concat (sys_outboxes s)"

text \<open>
  A step is orderly unless it is a callback (or the update of the peers after their sync)
  that begins while another still has events to send, or a send that is given up (the outbox shrinks and the channel does not change).
\<close>

definition orderly :: "'ctx system \<Rightarrow> 'ctx system \<Rightarrow> bool" where
  "orderly s s' \<longleftrightarrow>
     (if length (sys_outboxes s) < length (sys_outboxes s') then concat (sys_outboxes s) = []
      else sys_outboxes s' \<noteq> sys_outboxes s \<longrightarrow> Events (sys_reg s') \<noteq> Events (sys_reg s))"

inductive orderly_reachable ::
  "(string \<Rightarrow> bool) \<Rightarrow> (Unstructured \<Rightarrow> string) \<Rightarrow> bool \<Rightarrow> bool \<Rightarrow> 'ctx system \<Rightarrow> 'ctx system \<Rightarrow> bool"
  for ip6 GetName interval_ok callbacks s0 where
  or_start: "orderly_reachable ip6 GetName interval_ok callbacks s0 s0"
| or_step: "orderly_reachable ip6 GetName interval_ok callbacks s0 s \<Longrightarrow>
    system_step ip6 GetName interval_ok callbacks s s' \<Longrightarrow> orderly s s' \<Longrightarrow>
    orderly_reachable ip6 GetName interval_ok callbacks s0 s'"

lemma orderly_reachable_system:
  "orderly_reachable ip6 G ok cb s0 s \<Longrightarrow> system_reachable ip6 G ok cb s0 s"
  by (induction rule: orderly_reachable.induct) (auto intro: system_reachable.intros)

interpretation orderly_run: machine "\<lambda>s s'. system_step ip6 G ok cb s s' \<and> orderly s s'"
  "orderly_reachable ip6 G ok cb"
proof
  fix s t :: "'a system"
  show "orderly_reachable ip6 G ok cb s t \<longleftrightarrow> (\<lambda>s s'. system_step ip6 G ok cb s s' \<and> orderly s s')\<^sup>*\<^sup>* s t"
  proof
    show "(\<lambda>s s'. system_step ip6 G ok cb s s' \<and> orderly s s')\<^sup>*\<^sup>* s t" if "orderly_reachable ip6 G ok cb s t"
      using that by induction (auto intro: rtranclp.rtrancl_into_rtrancl)
    show "orderly_reachable ip6 G ok cb s t" if "(\<lambda>s s'. system_step ip6 G ok cb s s' \<and> orderly s s')\<^sup>*\<^sup>* s t"
      using that by induction (auto intro: orderly_reachable.intros)
  qed
qed

lemma orderly_callbacks_optional:
  "orderly_reachable ip6 G ok False s s' \<Longrightarrow> orderly_reachable ip6 G ok cb s s'"
  by (induction rule: orderly_reachable.induct) (auto intro: orderly_reachable.intros callbacks_optional)

subsection \<open>The invariant\<close>

definition delivery_inv :: "string \<Rightarrow> 'ctx system \<Rightarrow> bool" where
  "delivery_inv self s \<longleftrightarrow>
     reachable self (sys_reg s) \<and> loop_inv (sys_loop s) \<and>
     (\<exists>pre es. concat pre = [] \<and> (sys_outboxes s = pre \<or> sys_outboxes s = pre @ [es])) \<and>
     replay (probing (sys_loop s)) (backlog s) = active_set (sys_reg s)"

text \<open>A scheduler goroutine returns only when its context is done.\<close>

definition ticking_inv :: "'ctx system \<Rightarrow> bool" where
  "ticking_inv s \<longleftrightarrow>
     length (sys_ctls s) = length (schedulers (sys_loop s)) \<and>
     (\<forall>i < length (sys_ctls s). sys_ctls s ! i = Stopped \<longrightarrow>
        sys_done s \<or> cancelled (schedulers (sys_loop s) ! i)) \<and>
     (Panicked \<in> set (sys_ctls s) \<longrightarrow> sys_crashed s)"

text \<open>The addresses for which a goroutine is waiting for the next tick (or about to).\<close>

definition ticking :: "'ctx system \<Rightarrow> address set" where
  "ticking s = {Address (sched_target (schedulers (sys_loop s) ! i)) | i. i < length (sys_ctls s) \<and>
     sys_ctls s ! i \<in> {Fresh, Waiting} \<and> \<not> cancelled (schedulers (sys_loop s) ! i)}"

lemma active_set_Events [simp]: "active_set (r\<lparr>Events := ch\<rparr>) = active_set r"
  by (simp add: active_set_def)

lemma probing_cleaner [simp]: "probing (l\<lparr>cleaner := c\<rparr>) = probing l"
  by (simp add: probing_def)

lemma outbox_head:
  assumes "concat pre = []" "out = pre \<or> out = pre @ [ds]" "i < length out" "out ! i = e # es"
  shows "\<exists>pre'. concat pre' = [] \<and> out[i := es] = pre' @ [es] \<and> concat out = e # es"
proof -
  have "i = length pre"
    using assms by (auto simp: nth_append less_Suc_eq split: if_splits) (metis list.distinct(1) nth_mem)+
  with assms show ?thesis by (auto simp: list_update_append)
qed

text \<open>A critical section that runs while nothing is waiting to be sent.\<close>

lemma delivery_inv_publish:
  assumes "delivery_inv self s" "concat (sys_outboxes s) = []"
    and x: "valid_informer (sys_reg s) x" "informer_step G (sys_reg s) x = (r, events)"
  shows "delivery_inv self (s\<lparr>sys_reg := r, sys_outboxes := sys_outboxes s @ [events], sys_tasks := tk\<rparr>)"
proof -
  have reach: "reachable self (sys_reg s)" using assms(1) by (simp add: delivery_inv_def)
  have "reachable self r" using reachable_informer_step [OF reach x(1), of G] x(2) by simp
  moreover have "replay (active_set (sys_reg s)) events = active_set r"
    using informer_events.replay_step [OF reachable_inv [OF reach] x(1), of G] x(2) by simp
  moreover have "Events r = Events (sys_reg s)" using Events_frame [of G "sys_reg s" x] x(2) by simp
  ultimately show ?thesis
    using assms(1,2) by (auto simp: delivery_inv_def backlog_def simp del: concat_eq_Nil_conv)
qed

text \<open>A send that is not given up moves the first waiting event into the channel.\<close>

lemma delivery_inv_emit:
  assumes "delivery_inv self s" "i < length (sys_outboxes s)" "sys_outboxes s ! i = e # es"
    and "res \<in> set (emitEvent b timer e (Events (sys_reg s)))"
    and s': "s' = after_emit res (s\<lparr>sys_outboxes := (sys_outboxes s)[i := es]\<rparr>)" and "orderly s s'"
  shows "delivery_inv self s'"
proof -
  obtain pre ds where "concat pre = []" "sys_outboxes s = pre \<or> sys_outboxes s = pre @ [ds]"
    using assms(1) by (auto simp: delivery_inv_def)
  then obtain pre' where pre': "concat pre' = []" "(sys_outboxes s)[i := es] = pre' @ [es]"
    "concat (sys_outboxes s) = e # es"
    using outbox_head [OF _ _ assms(2,3)] by blast
  have "sys_outboxes s' = (sys_outboxes s)[i := es]"
    using s' by (cases res) (simp_all add: after_emit_def)
  moreover have "(sys_outboxes s)[i := es] ! i \<noteq> sys_outboxes s ! i" using assms(2,3) by simp
  ultimately have "sys_outboxes s' \<noteq> sys_outboxes s" "length (sys_outboxes s') = length (sys_outboxes s)"
    by auto
  then have "Events (sys_reg s') \<noteq> Events (sys_reg s)"
    using assms(6) by (simp add: orderly_def)
  then obtain ch where res: "res = Delivered ch"
    using s' by (cases res) (auto simp: after_emit_def)
  then have "buf ch = buf (Events (sys_reg s)) @ [e]"
    using assms(4) by (auto dest: emit_closed)
  with res have "backlog s' = backlog s"
    using s' pre' by (simp add: backlog_def after_emit_def)
  with res s' pre' assms(1) show ?thesis
    by (auto simp: delivery_inv_def after_emit_def intro: reachable.channel)
qed

lemma delivery_inv_step:
  assumes "delivery_inv self s" "system_step ip6 G ok cb s s'" "orderly s s'"
    and "sys_phase s = Serving"
  shows "delivery_inv self s'"
proof -
  obtain pre ds where out: "concat pre = []" "sys_outboxes s = pre \<or> sys_outboxes s = pre @ [ds]"
    and reach: "reachable self (sys_reg s)" and loop: "loop_inv (sys_loop s)"
    and rep: "replay (probing (sys_loop s)) (backlog s) = active_set (sys_reg s)"
    using assms(1) by (auto simp: delivery_inv_def)
  show ?thesis
    using assms(2)
  proof cases
    case (y_callback x r events)
    then have "concat (sys_outboxes s) = []" using assms(3) by (simp add: orderly_def)
    from delivery_inv_publish [OF assms(1) this y_callback(4,6), of "sys_tasks s"] show ?thesis
      using y_callback(1) by simp
  next
    case (y_peers order store r events)
    then have "concat (sys_outboxes s) = []" using assms(3) by (simp add: orderly_def)
    from delivery_inv_publish [OF assms(1) this, of "PeersChanged store order"] show ?thesis
      using y_peers by simp
  next
    case (y_emit i e es res timer)
    from delivery_inv_emit [OF assms(1) y_emit(3,4,5,1) assms(3)] show ?thesis .
  next
    case (y_event e ch)
    then have "buf (Events (sys_reg s)) = e # buf ch" by (auto simp: chan_recv_Received)
    then have "backlog s = e # backlog s'"
      using y_event by (simp add: backlog_def loop_receive_def Let_def)
    moreover have "probing (sys_loop s') = replay (probing (sys_loop s)) [e]"
      using y_event scheduler_loop.probed_handle [OF loop, of e] by (simp add: loop_receive_def Let_def)
    ultimately have "replay (probing (sys_loop s')) (backlog s') = active_set (sys_reg s')"
      using rep y_event by (simp add: loop_receive_def Let_def)
    with y_event out reach loop show ?thesis
      by (auto simp: delivery_inv_def loop_receive_def Let_def intro: reachable.channel loop_inv_handle)
  next
    case (y_scrape i order c toDelete)
    then have "loop_inv (sys_loop s')"
      using loop_inv_step [OF loop, of "Scrape order"] by simp
    with y_scrape out reach rep show ?thesis
      by (auto simp: delivery_inv_def backlog_def)
  next
    case y_main
    from y_main(2) show ?thesis
      using assms(1,4) by cases (auto simp: delivery_inv_def backlog_def)
  qed (use assms(1) in \<open>simp_all add: delivery_inv_def backlog_def\<close>)
qed

text \<open>Whatever the deliveries do, the registry is in a state its operations lead to.\<close>

lemma reachable_registry:
  "system_reachable ip6 G ok cb (start_system self n q d) s \<Longrightarrow> reachable self (sys_reg s)"
proof (induction rule: system_reachable.induct)
  case sr_start
  show ?case by (simp add: start_system_def reachable.created)
next
  case (sr_step s s')
  from sr_step.hyps(2) show ?case
  proof cases
    case (y_callback x r events)
    then show ?thesis
      using reachable_informer_step [OF sr_step.IH y_callback(4), of G] by simp
  next
    case (y_peers order store r events)
    then show ?thesis
      using reachable_informer_step [OF sr_step.IH, of "PeersChanged store order" G] by simp
  next
    case (y_emit i e es res timer)
    then show ?thesis
      using sr_step.IH by (cases res) (simp_all add: after_emit_def reachable.channel)
  next
    case (y_event e ch)
    then show ?thesis
      using sr_step.IH by (simp add: loop_receive_def Let_def reachable.channel)
  next
    case y_main
    from y_main(2) show ?thesis
      using sr_step.IH by cases (auto simp: Close_def intro: reachable.channel)
  qed (use sr_step.IH in simp_all)
qed

lemma delivery_inv_start: "delivery_inv self (start_system self n q d)"
  by (auto simp: delivery_inv_def start_system_def backlog_def loop_inv_new probing_def
      intro: reachable.created) (simp_all add: NewRegistry_def make_chan_def new_Loop_def active_set_def)

lemma serving_before:
  "phase_inv s \<Longrightarrow> system_step ip6 G ok cb s s' \<Longrightarrow> \<not> sys_done s' \<Longrightarrow> \<not> sys_done s \<and> sys_phase s = Serving"
proof -
  assume inv: "phase_inv s" and st: "system_step ip6 G ok cb s s'" and nd: "\<not> sys_done s'"
  have "sys_done s \<longrightarrow> sys_done s'"
    using st
  proof cases
    case (y_emit i e es res timer)
    then show ?thesis by (cases res) (simp_all add: after_emit_def)
  next
    case y_main
    from y_main(2) show ?thesis by cases simp_all
  qed (simp_all add: loop_receive_def Let_def)
  with inv nd show ?thesis by (auto simp: phase_inv_def)
qed

lemma delivery_inv_reachable:
  "orderly_reachable ip6 G ok cb (start_system self n q d) s \<Longrightarrow> \<not> sys_done s \<Longrightarrow> delivery_inv self s"
proof (induction rule: orderly_reachable.induct)
  case or_start
  then show ?case by (simp add: delivery_inv_start)
next
  case (or_step s s')
  have "phase_inv s"
    using phase_inv_reachable [OF orderly_reachable_system [OF or_step.hyps(1)] phase_inv_start] .
  with or_step serving_before [of s] show ?case by (auto intro: delivery_inv_step)
qed

text \<open>While the program serves, the goroutines that tick are those of the live schedulers.\<close>

lemma cancelled_handle:
  "i < length (schedulers l) \<Longrightarrow> cancelled (schedulers l ! i) \<Longrightarrow> cancelled (schedulers (handle_event e l) ! i)"
  by (cases "activeSchedulers l (evt_address e) = Some i")
    (auto simp: handle_event_def spawn_def cancelFunc_def Let_def nth_append nth_list_update
      split: option.split)

lemma sched_step_stopped:
  "sched_step ok b t (c, sh) (Stopped, sh') \<Longrightarrow> b"
proof -
  have "b" if "fst (after_enqueue t r sh) = Stopped" "r \<in> set (enqueue b t (jobs sh))" for r
    using that by (cases r) (auto simp: enqueue_def Let_def split: send_result.splits if_splits)
  moreover assume "sched_step ok b t (c, sh) (Stopped, sh')"
  then have "b \<or> (\<exists>r \<in> set (enqueue b t (jobs sh)). fst (after_enqueue t r sh) = Stopped)"
    by cases (metis fst_conv)+
  ultimately show b by blast
qed

lemma ticking_inv_step:
  assumes "ticking_inv s" "system_step ip6 G ok cb s s'"
  shows "ticking_inv s'"
  using assms(2)
proof cases
  case (y_emit i e es res timer)
  then show ?thesis using assms(1) by (cases res) (auto simp: ticking_inv_def after_emit_def)
next
  case (y_event e ch)
  then show ?thesis
    using assms(1) handle_event_schedulers(1) [of "sys_loop s" e]
    by (auto simp: ticking_inv_def loop_receive_def Let_def nth_append intro: cancelled_handle)
next
  case (y_sched i c sh)
  then have "sys_done s \<or> cancelled (schedulers (sys_loop s) ! i)" if "c = Stopped"
    using that sched_step_stopped by metis
  with y_sched assms(1) set_update_subset_insert [of "sys_ctls s" i c] show ?thesis
    by (auto simp: ticking_inv_def nth_list_update)
next
  case (y_handoff i j t)
  with assms(1) set_update_subset_insert [of "sys_ctls s" j Waiting] show ?thesis
    by (auto simp: ticking_inv_def nth_list_update)
next
  case y_main
  from y_main(2) show ?thesis
    using assms(1) by cases (auto simp: ticking_inv_def frame_simps cancel_all_cancels)
qed (use assms(1) in \<open>auto simp: ticking_inv_def\<close>)

lemma ticking_inv_reachable:
  "system_reachable ip6 G ok cb (start_system self n q d) s \<Longrightarrow> ticking_inv s"
  by (erule prog.reach_invariant)
    (auto intro: ticking_inv_step, simp add: ticking_inv_def start_system_def new_Loop_def)

lemma ticking_probing:
  assumes "ticking_inv s" "\<not> sys_done s" "\<not> sys_crashed s"
  shows "ticking s = probing (sys_loop s)"
proof -
  have "sys_ctls s ! i \<in> {Fresh, Waiting}"
    if "i < length (sys_ctls s)" "\<not> cancelled (schedulers (sys_loop s) ! i)" for i
    using assms that nth_mem [OF that(1)] by (cases "sys_ctls s ! i") (auto simp: ticking_inv_def)
  moreover have "length (sys_ctls s) = length (schedulers (sys_loop s))"
    using assms(1) by (simp add: ticking_inv_def)
  ultimately show ?thesis
    by (auto simp: ticking_def probing_def in_set_conv_nth)
qed

text \<open>What is delivered is probed.\<close>

lemma delivered_ticking:
  assumes "orderly_reachable ip6 G ok cb (start_system self n q d) s"
    and "\<not> sys_done s" "\<not> sys_crashed s" "backlog s = []"
  shows "ticking s =
    {a. targets (sys_reg s) a \<noteq> None \<and> evalShardingOwner a self (clusterPodIPs (sys_reg s)) = Some True}"
proof -
  have "ticking s = probing (sys_loop s)"
    using ticking_probing [OF ticking_inv_reachable [OF orderly_reachable_system [OF assms(1)]] assms(2,3)] .
  moreover have inv: "delivery_inv self s" by (rule delivery_inv_reachable [OF assms(1,2)])
  moreover from inv have "registry_inv (sys_reg s)" "selfPodIP (sys_reg s) = self"
    by (auto simp: delivery_inv_def reachable_inv reachable_self)
  ultimately show ?thesis
    using assms(4) by (simp add: delivery_inv_def active_set_def active_iff shouldProcessTargetLocked_def)
qed

subsection \<open>Properties\<close>

text \<open>
  A run of the program: a StaticTarget is discovered and announced, the event loop starts its
  scheduler, the first job is queued, and a worker takes it.
\<close>

definition ex_queue :: "Job chan" where
  "ex_queue = (make_chan 1)\<lparr>buf := [\<lparr>job_target = late_target\<rparr>]\<rparr>"

definition ex_queued :: "unit system" where
  "ex_queued =
     \<lparr>sys_reg = late_registry, sys_outboxes = [[]], sys_tasks = (\<lambda>_. Syncing),
      sys_loop = handle_event (added late_target) new_Loop,
      sys_loop_done = False, sys_ctls = [Waiting], sys_workers = [Idle],
      sys_shared = \<lparr>jobs = ex_queue, disp = ex_dispatcher, log = []\<rparr>, sys_server = SrvListening, sys_requests = [],
      sys_done = False, sys_phase = Serving, sys_crashed = False\<rparr>"

definition ex_running :: "unit system" where
  "ex_running = ex_queued\<lparr>sys_workers := [Acquiring late_target],
     sys_shared := \<lparr>jobs = make_chan 1, disp = ex_dispatcher, log = probe_begin late_target\<rparr>\<rparr>"

definition ex_announced :: "unit system" where
  "ex_announced =
     \<lparr>sys_reg = late_registry, sys_outboxes = [[added late_target]], sys_tasks = (\<lambda>_. Syncing),
      sys_loop = new_Loop, sys_loop_done = False, sys_ctls = [], sys_workers = [Idle],
      sys_shared = \<lparr>jobs = make_chan 1, disp = ex_dispatcher, log = []\<rparr>, sys_server = SrvListening,
      sys_requests = [], sys_done = False, sys_phase = Serving, sys_crashed = False\<rparr>"

lemma ex_announced_reachable:
  "orderly_reachable ip6 ex_GetName True True (start_system [] 1 1 ex_dispatcher) ex_announced"
proof -
  let ?R = "orderly_reachable ip6 ex_GetName True True (start_system [] 1 1 ex_dispatcher)"
  note step = orderly_reachable.or_step
  have 0: "?R (booted (start_system [] 1 1 ex_dispatcher))"
    by (rule boot_run [where R = ?R and ?ip6.0 = ip6 and G = ex_GetName and ok = True and cb = True])
      (simp_all add: start_system_def orderly_reachable.or_start step orderly_def)
  show ?thesis
    using step [OF 0 y_callback [of _ True "CRDAdded (Object (ex_crd ''db:5432''))" ex_GetName
        late_registry "[added late_target]"]] late_callback(1)
    by (simp add: orderly_def booted_def start_system_def ex_announced_def)
qed

lemma ex_queued_reachable:
  "orderly_reachable ip6 ex_GetName True True (start_system [] 1 1 ex_dispatcher) ex_queued"
proof -
  let ?R = "orderly_reachable ip6 ex_GetName True True (start_system [] 1 1 ex_dispatcher)"
  let ?ch = "(make_chan 1000 :: TargetEvent chan)\<lparr>buf := [added late_target]\<rparr>"
  let ?q = "(make_chan 1 :: Job chan)\<lparr>buf := [\<lparr>job_target = late_target\<rparr>]\<rparr>"
  let ?S = "\<lambda>r out l ctls ws q lg. \<lparr>sys_reg = r, sys_outboxes = out, sys_tasks = (\<lambda>_. Syncing), sys_loop = l, sys_loop_done = False,
      sys_ctls = ctls, sys_workers = ws, sys_shared = \<lparr>jobs = q, disp = ex_dispatcher, log = lg\<rparr>,
      sys_server = SrvListening, sys_requests = [],
      sys_done = False, sys_phase = Serving, sys_crashed = False\<rparr>"
  let ?l = "handle_event (added late_target) new_Loop"
  note step = orderly_reachable.or_step
  have 1: "?R (?S late_registry [[added late_target]] new_Loop [] [Idle] (make_chan 1) [])"
    using ex_announced_reachable by (simp add: ex_announced_def)
  have "Delivered ?ch \<in> set (emitEvent False False (added late_target) (Events late_registry))"
    by (simp add: late_callback(2) emitEvent_def send_case_def channel_defs)
  then have 2: "?R (?S (late_registry\<lparr>Events := ?ch\<rparr>) [[]] new_Loop [] [Idle] (make_chan 1) [])"
    using step [OF 1 y_emit [of _ 0 "added late_target" "[]" "Delivered ?ch" False]]
    by (simp add: after_emit_def orderly_def late_callback(2) make_chan_def)
  have "chan_recv ?ch = Received (added late_target) (Events late_registry)"
    by (simp add: late_callback(2) channel_defs)
  moreover have l: "schedulers ?l = [\<lparr>sched_target = late_target, cancelled = False\<rparr>]"
    by (simp add: handle_event_def spawn_def new_Loop_def Let_def)
  ultimately have 3: "?R (?S late_registry [[]] ?l [Fresh] [Idle] (make_chan 1) [])"
    using step [OF 2 y_event [of _ "added late_target" "Events late_registry"]]
    by (simp add: loop_receive_def Let_def orderly_def)
  have "Enqueued ?q \<in> set (enqueue False late_target (make_chan 1))"
    by (simp add: enqueue_def channel_defs)
  then have "sched_step True False late_target (Fresh, \<lparr>jobs = make_chan 1, disp = ex_dispatcher, log = []\<rparr>)
      (Waiting, \<lparr>jobs = ?q, disp = ex_dispatcher, log = []\<rparr>)"
    using sched_step.s_first [of True "Enqueued ?q" False late_target
        "\<lparr>jobs = make_chan 1, disp = ex_dispatcher, log = []\<rparr>"] by simp
  then show ?thesis
    using step [OF 3 y_sched [of _ 0 True Waiting]] l by (simp add: orderly_def ex_queued_def ex_queue_def)
qed

lemma ex_take:
  "worker_step ip6 False (Idle, \<lparr>jobs = ex_queue, disp = ex_dispatcher, log = l\<rparr>)
    (Acquiring late_target, \<lparr>jobs = make_chan 1, disp = ex_dispatcher, log = l @ probe_begin late_target\<rparr>)"
proof -
  have "chan_recv ex_queue = Received \<lparr>job_target = late_target\<rparr> (make_chan 1)"
    by (simp add: ex_queue_def channel_defs)
  then show ?thesis
    using worker_step.w_take [of "\<lparr>jobs = ex_queue, disp = ex_dispatcher, log = l\<rparr>" _ _ ip6 False] by simp
qed

lemma ex_running_reachable:
  "orderly_reachable ip6 ex_GetName True True (start_system [] 1 1 ex_dispatcher) ex_running"
  using orderly_reachable.or_step [OF ex_queued_reachable y_worker [of _ 0 ip6 "Acquiring late_target"]] ex_take [of ip6 "[]"]
  by (simp add: ex_running_def ex_queued_def orderly_def)

text \<open>
  C2. Convergence with everything running: however the event loop, the schedulers, the
  workers and the scrapes interleave with the callbacks, as long as callbacks do not overlap
  and no send is given up, in every state in which no event is pending the goroutines that
  wait for ticks probe exactly the known targets this replica owns, and none is missing.
\<close>

theorem orderly_delivery_converges:
  assumes "orderly_reachable ip6 GetName interval_ok callbacks (start_system self n q d) s"
    and "\<not> sys_done s" "\<not> sys_crashed s" "backlog s = []"
  shows "ticking s =
    {a. targets (sys_reg s) a \<noteq> None \<and> evalShardingOwner a self (clusterPodIPs (sys_reg s)) = Some True}"
  by (rule delivered_ticking [OF assms])

theorem orderly_delivery_converges_witness:
  "ticking ex_running = {''tcp://db:5432''}"
proof -
  have "ticking ex_running = {a. targets late_registry a \<noteq> None \<and>
      evalShardingOwner a [] (clusterPodIPs late_registry) = Some True}"
    using orderly_delivery_converges [OF ex_running_reachable [of "\<lambda>_. True"]]
    by (simp add: ex_running_def ex_queued_def backlog_def late_callback(2) make_chan_def)
  then show ?thesis
    by (simp add: late_registry_def Add_state evalShardingOwner_def)
      (simp add: NewRegistry_def is_static_def late_target_def)
qed

text \<open>Two callbacks at once: a StaticTarget is added, and the target is handed to a peer.\<close>

definition race_registry :: Registry where
  "race_registry = fst (Add late_target (NewRegistry ''10.0.0.9''))"

definition peer_store :: "EndpointSlice api_object list" where
  "peer_store = [Object (ex_labelled ''kube-prober'')]"

definition handed_registry :: Registry where
  "handed_registry = fst (updatePeers peer_store [''tcp://db:5432''] race_registry)"

lemma race_callbacks:
  "informer_step ex_GetName (NewRegistry ''10.0.0.9'') (CRDAdded (Object (ex_crd ''db:5432'')))
    = (race_registry, [added late_target])"
  "range_order [''tcp://db:5432''] (targets race_registry)"
  "updatePeers peer_store [''tcp://db:5432''] race_registry = (handed_registry, [removed late_target])"
  "updatePeers peer_store [''tcp://db:5432''] handed_registry = (handed_registry, [])"
  "Events race_registry = make_chan 1000" "Events handed_registry = make_chan 1000"
proof -
  have mine: "shouldProcessTargetLocked r ''tcp://db:5432''" if "clusterPodIPs r = []" for r
    using that by (simp add: shouldProcessTargetLocked_def evalShardingOwner_def)
  have theirs: "\<not> shouldProcessTargetLocked r ''tcp://db:5432''"
    if "clusterPodIPs r = [''10.1.0.1'']" "selfPodIP r = ''10.0.0.9''" for r
    using hrw.sole_peer [of "''10.0.0.9''" "''tcp://db:5432''" "''10.1.0.1''"] that
    by (simp add: shouldProcessTargetLocked_def owns_def)
  have a: "Address late_target = ''tcp://db:5432''" by (simp add: late_target_def)
  have race: "Add late_target (NewRegistry ''10.0.0.9'') = (race_registry, [added late_target])"
    by (simp add: race_registry_def Add_def Let_def a mine NewRegistry_def) (simp add: late_target_def)
  have fields: "targets race_registry = [''tcp://db:5432'' \<mapsto> late_target]"
    "active race_registry = [''tcp://db:5432'' \<mapsto> True]" "clusterPodIPs race_registry = []"
    "selfPodIP race_registry = ''10.0.0.9''" "Events race_registry = make_chan 1000"
    by (simp_all add: race_registry_def Add_def Let_def a mine NewRegistry_def) (simp_all add: late_target_def)
  have peers: "peer_ips peer_store = [''10.1.0.1'']"
    by (simp add: peer_store_def peer_ips_def get_string_def)
  show "informer_step ex_GetName (NewRegistry ''10.0.0.9'') (CRDAdded (Object (ex_crd ''db:5432'')))
    = (race_registry, [added late_target])"
    using race by (simp add: static_handler_ops static_add_op_def parse_ex_crd) (simp add: late_target_def)
  show "range_order [''tcp://db:5432''] (targets race_registry)" by (simp add: fields range_order_def)
  show "Events race_registry = make_chan 1000" by (rule fields)
  show up: "updatePeers peer_store [''tcp://db:5432''] race_registry = (handed_registry, [removed late_target])"
    by (simp add: handed_registry_def updatePeers_def UpdatePeers_def peers peers_step_def fields theirs Let_def)
  show "updatePeers peer_store [''tcp://db:5432''] handed_registry = (handed_registry, [])"
    "Events handed_registry = make_chan 1000"
    by (simp_all add: handed_registry_def updatePeers_def UpdatePeers_def peers peers_step_def fields theirs Let_def)
qed

text \<open>
  The removal is sent and handled first, then the addition it revokes: the state the
  program is in when both events have been handled.
\<close>

definition orphan_system :: "nat \<Rightarrow> nat \<Rightarrow> 'ctx Dispatcher \<Rightarrow> 'ctx system" where
  "orphan_system n q d =
     \<lparr>sys_reg = handed_registry, sys_outboxes = [[], []],
      sys_tasks = (\<lambda>_. Syncing), sys_loop = handle_event (added late_target) new_Loop, sys_loop_done = False,
      sys_ctls = [Fresh], sys_workers = replicate n Idle,
      sys_shared = \<lparr>jobs = make_chan q, disp = d, log = []\<rparr>, sys_server = SrvListening, sys_requests = [],
      sys_done = False, sys_phase = Serving, sys_crashed = False\<rparr>"

lemma orphan_loop:
  "schedulers (handle_event (added late_target) new_Loop) =
    [\<lparr>sched_target = late_target, cancelled = False\<rparr>]"
  by (simp add: handle_event_def spawn_def new_Loop_def Let_def)

lemma orphan_reachable:
  "system_reachable ip6 ex_GetName True True (start_system ''10.0.0.9'' n q d) (orphan_system n q d)"
proof -
  let ?R = "system_reachable ip6 ex_GetName True True (start_system ''10.0.0.9'' n q d)"
  let ?ch = "\<lambda>xs. (make_chan 1000 :: TargetEvent chan)\<lparr>buf := xs\<rparr>"
  let ?r = "\<lambda>xs. handed_registry\<lparr>Events := ?ch xs\<rparr>"
  let ?S = "\<lambda>r out l ctls. \<lparr>sys_reg = r, sys_outboxes = out, sys_tasks = (\<lambda>_. Syncing), sys_loop = l, sys_loop_done = False,
      sys_ctls = ctls, sys_workers = replicate n Idle,
      sys_shared = \<lparr>jobs = make_chan q, disp = d, log = []\<rparr>, sys_server = SrvListening, sys_requests = [],
      sys_done = False, sys_phase = Serving, sys_crashed = False\<rparr>"
  note step = system_reachable.sr_step
  have none: "?r [] = handed_registry"
    by (rule Registry.equality) (simp_all add: race_callbacks(6) make_chan_def)
  have 0: "?R (?S (NewRegistry ''10.0.0.9'') [] new_Loop [])"
  proof -
    have "?R (booted (start_system ''10.0.0.9'' n q d))"
      by (rule boot_run [where R = ?R and ?ip6.0 = ip6 and G = ex_GetName and ok = True and cb = True])
        (simp_all add: start_system_def prog.reach_refl step)
    then show ?thesis by (simp add: booted_def start_system_def)
  qed
  have 1: "?R (?S race_registry [[added late_target]] new_Loop [])"
    using step [OF 0 y_callback [of _ True "CRDAdded (Object (ex_crd ''db:5432''))" ex_GetName
        race_registry "[added late_target]"]] race_callbacks(1) by simp
  have 2: "?R (?S (?r []) [[added late_target], [removed late_target]] new_Loop [])"
    using step [OF 1 y_callback [of _ True "PeersChanged peer_store [''tcp://db:5432'']" ex_GetName
        handed_registry "[removed late_target]"]] race_callbacks(2,3) none by simp
  have "Delivered (?ch (xs @ [e])) \<in> set (emitEvent False False e (?ch xs))" if "length xs < 1000" for xs e
    using that by (simp add: emitEvent_def send_case_def channel_defs)
  note deliver = this [of "[]"] this [of "[e]" for e]
  have 3: "?R (?S (?r [removed late_target]) [[added late_target], []] new_Loop [])"
    using step [OF 2 y_emit [of _ 1 "removed late_target" "[]" "Delivered (?ch [removed late_target])" False]]
      deliver by (simp add: after_emit_def)
  have 4: "?R (?S (?r [removed late_target, added late_target]) [[], []] new_Loop [])"
    using step [OF 3 y_emit [of _ 0 "added late_target" "[]"
        "Delivered (?ch [removed late_target, added late_target])" False]] deliver by (simp add: after_emit_def)
  have recv: "chan_recv (?ch (e # es)) = Received e (?ch es)" for e es
    by (simp add: chan_recv_def)
  have "handle_event (removed late_target) new_Loop = new_Loop"
    by (simp add: handle_event_def new_Loop_def)
  then have 5: "?R (?S (?r [added late_target]) [[], []] new_Loop [])"
    using step [OF 4 y_event [of _ "removed late_target" "?ch [added late_target]"]] recv
    by (simp add: loop_receive_def Let_def new_Loop_def)
  show ?thesis
    using step [OF 5 y_event [of _ "added late_target" "?ch []"]] recv none orphan_loop
    by (simp add: loop_receive_def Let_def orphan_system_def)
qed

text \<open>
  C17. Events of overlapping callbacks can arrive in the wrong order: both critical sections
  have run, but the removal is sent before the addition it revokes. Every event is handled,
  nothing is pending, and a scheduler goes on probing a target that another replica owns; and
  the registry, which has the target as not active, emits no removal when the peers are
  processed again.
\<close>

theorem reordered_events_orphan:
  "\<exists>s. system_reachable ip6 ex_GetName True True (start_system ''10.0.0.9'' n q d) s \<and>
     backlog s = [] \<and> \<not> sys_crashed s \<and> sys_phase s = Serving \<and> ticking s = {''tcp://db:5432''} \<and>
     evalShardingOwner ''tcp://db:5432'' ''10.0.0.9'' (clusterPodIPs (sys_reg s)) = Some False \<and>
     snd (updatePeers peer_store [''tcp://db:5432''] (sys_reg s)) = []"
proof -
  have "clusterPodIPs handed_registry = [''10.1.0.1'']"
    by (simp add: handed_registry_def updatePeers_def UpdatePeers_state peer_store_def peer_ips_def get_string_def
        race_callbacks(2))
  then have "evalShardingOwner ''tcp://db:5432'' ''10.0.0.9'' (clusterPodIPs handed_registry) = Some False"
    using hrw.sole_peer [of "''10.0.0.9''" "''tcp://db:5432''" "''10.1.0.1''"]
    by (simp add: owns_def evalShardingOwner_eq)
  moreover have "ticking (orphan_system n q d) = {''tcp://db:5432''}"
    by (auto simp: ticking_def orphan_system_def orphan_loop) (simp_all add: late_target_def)
  ultimately show ?thesis
    using orphan_reachable [of ip6 n q d] race_callbacks(4,6)
    by (intro exI [of _ "orphan_system n q d"])
      (simp add: orphan_system_def backlog_def make_chan_def)
qed

end
