(* ===== verification/Paths.thy ===== *)
theory Paths
  imports Prelude
begin

section \<open>Slash-separated paths: path.Clean and filepath.Join\<close>

text \<open>
  The two functions of the standard library behind the location of the kubeconfig file and
  behind the request paths of the HTTP server: lexical normalisation of a path, and joining
  elements (on Unix, where the separator of \<open>filepath\<close> is the slash).
\<close>

text \<open>The elements between slashes; an empty path has one empty element.\<close>

fun split_slash :: "string \<Rightarrow> string list" where
  "split_slash [] = [[]]"
| "split_slash (c # s) =
     (if c = CHR ''/'' then [] # split_slash s
      else (case split_slash s of [] \<Rightarrow> [[c]] | e # es \<Rightarrow> (c # e) # es))"

fun join_slash :: "string list \<Rightarrow> string" where
  "join_slash [] = []"
| "join_slash [e] = e"
| "join_slash (e # es) = e @ ''/'' @ join_slash es"

text \<open>One element of \<open>Clean\<close>, on the elements kept so far (the last one first).\<close>

definition clean_step :: "bool \<Rightarrow> string \<Rightarrow> string list \<Rightarrow> string list" where
  "clean_step rooted e out =
     (if e = [] \<or> e = ''.'' then out
      else if e = ''..'' then
        (case out of
           x # xs \<Rightarrow> if x = ''..'' then e # out else xs
         | [] \<Rightarrow> if rooted then [] else [e])
      else e # out)"

definition Clean :: "string \<Rightarrow> string" where
  "Clean path =
     (let rooted = HasPrefix path ''/'';
          out = rev (fold (clean_step rooted) (split_slash path) [])
      in if rooted then ''/'' @ join_slash out
         else if out = [] then ''.'' else join_slash out)"

definition filepath_Join :: "string list \<Rightarrow> string" where
  "filepath_Join elems =
     (let rest = dropWhile (\<lambda>e. e = []) elems in
      if rest = [] then [] else Clean (join_slash rest))"

subsection \<open>Lemmas\<close>

text \<open>A plain element: not empty, not a dot element, without a slash.\<close>

definition plain_elem :: "string \<Rightarrow> bool" where
  "plain_elem e \<longleftrightarrow> e \<noteq> [] \<and> e \<noteq> ''.'' \<and> e \<noteq> ''..'' \<and> CHR ''/'' \<notin> set e"

lemma split_slash_nonempty [simp]: "split_slash s \<noteq> []"
  by (induction s) (auto split: list.split)

lemma split_slash_append:
  "CHR ''/'' \<notin> set e \<Longrightarrow> split_slash (e @ CHR ''/'' # s) = e # split_slash s"
  by (induction e) auto

lemma split_slash_id: "CHR ''/'' \<notin> set e \<Longrightarrow> split_slash e = [e]"
  by (induction e) auto

lemma split_join_slash:
  "es \<noteq> [] \<Longrightarrow> \<forall>e \<in> set es. CHR ''/'' \<notin> set e \<Longrightarrow> split_slash (join_slash es) = es"
proof (induction es rule: join_slash.induct)
  case (3 e f es)
  then show ?case by (simp add: split_slash_append)
qed (simp_all add: split_slash_id)

lemma clean_steps_plain:
  "\<forall>e \<in> set es. plain_elem e \<Longrightarrow> fold (clean_step rooted) es out = rev es @ out"
  by (induction es arbitrary: out) (auto simp: clean_step_def plain_elem_def)

lemma join_slash_head:
  assumes "es \<noteq> []" "\<forall>e \<in> set es. plain_elem e"
  shows "\<not> HasPrefix (join_slash es) ''/''"
proof -
  obtain e es' where es: "es = e # es'" using assms(1) by (cases es) auto
  then obtain c r where c: "e = c # r" "c \<noteq> CHR ''/''"
    using assms(2) by (cases e) (auto simp: plain_elem_def)
  then have "\<exists>t. join_slash es = c # t" by (cases es') (simp_all add: es)
  with c show ?thesis by (auto simp: HasPrefix_def)
qed

text \<open>A path of plain elements is its own normal form, rooted or not.\<close>

lemma Clean_plain:
  assumes "es \<noteq> []" "\<forall>e \<in> set es. plain_elem e"
  shows "Clean (join_slash es) = join_slash es" "Clean (''/'' @ join_slash es) = ''/'' @ join_slash es"
proof -
  have split: "split_slash (join_slash es) = es"
    using assms by (intro split_join_slash) (auto simp: plain_elem_def)
  show "Clean (join_slash es) = join_slash es"
    using join_slash_head [OF assms] assms(1) clean_steps_plain [OF assms(2)]
    by (simp add: Clean_def Let_def split)
  have "HasPrefix (CHR ''/'' # join_slash es) ''/''" by (simp add: HasPrefix_def)
  then show "Clean (''/'' @ join_slash es) = ''/'' @ join_slash es"
    using clean_steps_plain [OF assms(2)]
    by (simp add: Clean_def Let_def split clean_step_def)
qed

end
