(* ===== verification/Kube.thy ===== *)
theory Kube
  imports Paths Config
begin

section \<open>Access to the cluster (pkg/kube/client.go)\<close>

text \<open>
  Where the cluster configuration comes from. The functions of client-go are arguments:
  \<open>inCluster\<close> is the result of \<open>rest.InClusterConfig\<close>, \<open>build\<close> is
  \<open>clientcmd.BuildConfigFromFlags("", path)\<close>, and \<open>newForConfig\<close> makes a client from a
  configuration. The errors of \<open>GetConfig\<close> are those of \<open>build\<close>, wrapped.
\<close>

datatype 'e kube_error = BuildConfigFailed 'e | NewClientFailed 'e

definition kubeconfig_path :: "environment \<Rightarrow> string" where
  "kubeconfig_path env =
     (let kubeconfig = get_string env ''KUBECONFIG'' in
      if kubeconfig = []
      then filepath_Join [get_string env ''HOME'', ''.kube'', ''config'']
      else kubeconfig)"

definition GetConfig ::
  "'e + 'cfg \<Rightarrow> (string \<Rightarrow> 'e + 'cfg) \<Rightarrow> environment \<Rightarrow> 'e kube_error + 'cfg" where
  "GetConfig inCluster build env =
     (case inCluster of
        Inr config \<Rightarrow> Inr config
      | Inl _ \<Rightarrow>
          (case build (kubeconfig_path env) of
             Inl err \<Rightarrow> Inl (BuildConfigFailed err)
           | Inr config \<Rightarrow> Inr config))"

definition init_with ::
  "('cfg \<Rightarrow> 'e + 'client) \<Rightarrow> 'e kube_error + 'cfg \<Rightarrow> 'e kube_error + 'client" where
  "init_with newForConfig res =
     (case res of
        Inl err \<Rightarrow> Inl err
      | Inr config \<Rightarrow>
          (case newForConfig config of
             Inl err \<Rightarrow> Inl (NewClientFailed err)
           | Inr client \<Rightarrow> Inr client))"

definition InitClient ::
  "'e + 'cfg \<Rightarrow> (string \<Rightarrow> 'e + 'cfg) \<Rightarrow> ('cfg \<Rightarrow> 'e + 'client) \<Rightarrow> environment \<Rightarrow>
    'e kube_error + 'client" where
  "InitClient inCluster build newForConfig env = init_with newForConfig (GetConfig inCluster build env)"

definition InitDynamicClient ::
  "'e + 'cfg \<Rightarrow> (string \<Rightarrow> 'e + 'cfg) \<Rightarrow> ('cfg \<Rightarrow> 'e + 'dyn) \<Rightarrow> environment \<Rightarrow>
    'e kube_error + 'dyn" where
  "InitDynamicClient inCluster build newForConfig env =
     init_with newForConfig (GetConfig inCluster build env)"

lemma init_with_Inr:
  "init_with new res = Inr c \<longleftrightarrow> (\<exists>cfg. res = Inr cfg \<and> new cfg = Inr c)"
  by (auto simp: init_with_def split: sum.splits)

lemma GetConfig_Inr:
  "GetConfig inCluster build env = Inr cfg \<longleftrightarrow>
    inCluster = Inr cfg \<or> (\<exists>e. inCluster = Inl e) \<and> build (kubeconfig_path env) = Inr cfg"
  by (auto simp: GetConfig_def split: sum.splits)

text \<open>
  The precedence: the cluster's own configuration, then the file named by \<open>KUBECONFIG\<close>, then
  \<open>.kube/config\<close> below the home directory.
\<close>

lemma GetConfig_precedence:
  "GetConfig (Inr cfg) build env = Inr cfg"
  "get_string env ''KUBECONFIG'' \<noteq> [] \<Longrightarrow> kubeconfig_path env = get_string env ''KUBECONFIG''"
  "get_string env ''KUBECONFIG'' = [] \<Longrightarrow> get_string env ''HOME'' = ''/'' @ join_slash es \<Longrightarrow>
     es \<noteq> [] \<Longrightarrow> \<forall>e \<in> set es. plain_elem e \<Longrightarrow>
     kubeconfig_path env = ''/'' @ join_slash (es @ [''.kube'', ''config''])"
  "get_string env ''KUBECONFIG'' = [] \<Longrightarrow> get_string env ''HOME'' = [] \<Longrightarrow>
     kubeconfig_path env = ''.kube/config''"
proof -
  show "GetConfig (Inr cfg) build env = Inr cfg" by (simp add: GetConfig_def)
  show "get_string env ''KUBECONFIG'' \<noteq> [] \<Longrightarrow> kubeconfig_path env = get_string env ''KUBECONFIG''"
    by (simp add: kubeconfig_path_def Let_def)
  have join: "es \<noteq> [] \<Longrightarrow> join_slash es @ ''/'' @ join_slash fs = join_slash (es @ fs)" if "fs \<noteq> []" for es fs
    using that by (induction es rule: join_slash.induct) (auto simp: neq_Nil_conv)
  have dot: "plain_elem ''.kube''" "plain_elem ''config''" by (simp_all add: plain_elem_def)
  show "kubeconfig_path env = ''/'' @ join_slash (es @ [''.kube'', ''config''])"
    if "get_string env ''KUBECONFIG'' = []" "get_string env ''HOME'' = ''/'' @ join_slash es"
      "es \<noteq> []" "\<forall>e \<in> set es. plain_elem e"
  proof -
    have "join_slash [''/'' @ join_slash es, ''.kube'', ''config''] = ''/'' @ join_slash (es @ [''.kube'', ''config''])"
      using join [of "[''.kube'', ''config'']" es] that(3) by simp
    moreover have "Clean (''/'' @ join_slash (es @ [''.kube'', ''config''])) = ''/'' @ join_slash (es @ [''.kube'', ''config''])"
      using that(4) dot by (intro Clean_plain) auto
    ultimately show ?thesis
      using that(1,2) by (simp add: kubeconfig_path_def filepath_Join_def)
  qed
  show "kubeconfig_path env = ''.kube/config''"
    if "get_string env ''KUBECONFIG'' = []" "get_string env ''HOME'' = []"
    using Clean_plain(1) [of "[''.kube'', ''config'']"] dot that
    by (simp add: kubeconfig_path_def filepath_Join_def)
qed

end
