(* ===== verification/Server.thy ===== *)
theory Server
  imports Paths Cleaner
begin

section \<open>The telemetry server (pkg/server/server.go)\<close>

text \<open>
  The routes \<open>New\<close> registers, the matching of \<open>http.ServeMux\<close> (an exact pattern, else the
  longest pattern that ends in a slash and is a prefix; a path that is not normal, or only
  lacks a final slash, is redirected), and what a request does. Only the metrics handler has
  an effect: it serves the registered series and then purges. The pages of package pprof are
  represented by their route.
\<close>

datatype route = Metrics | PprofIndex | PprofCmdline | PprofProfile | PprofSymbol | PprofTrace
  | Healthz | Readyz

definition routes :: "(string \<times> route) list" where
  "routes =
     [(''/metrics'', Metrics), (''/debug/pprof/'', PprofIndex), (''/debug/pprof/cmdline'', PprofCmdline),
      (''/debug/pprof/profile'', PprofProfile), (''/debug/pprof/symbol'', PprofSymbol),
      (''/debug/pprof/trace'', PprofTrace), (''/healthz'', Healthz), (''/readyz'', Readyz)]"

definition is_subtree :: "string \<Rightarrow> bool" where
  "is_subtree pattern \<longleftrightarrow> pattern \<noteq> [] \<and> last pattern = CHR ''/''"

text \<open>The longest of the patterns that match as subtrees; ties cannot occur.\<close>

definition longer :: "string \<times> route \<Rightarrow> (string \<times> route) option \<Rightarrow> (string \<times> route) option" where
  "longer p best =
     (case best of None \<Rightarrow> Some p
      | Some q \<Rightarrow> if length (fst q) < length (fst p) then Some p else best)"

definition mux_match :: "string \<Rightarrow> route option" where
  "mux_match path =
     (case map_of routes path of
        Some h \<Rightarrow> Some h
      | None \<Rightarrow>
          map_option snd
            (fold longer (filter (\<lambda>(p, h). is_subtree p \<and> HasPrefix path p) routes) None))"

text \<open>\<open>cleanPath\<close> of net/http: rooted, normal, and keeping a final slash.\<close>

definition cleanPath :: "string \<Rightarrow> string" where
  "cleanPath p =
     (if p = [] then ''/''
      else
        (let p = (if \<not> HasPrefix p ''/'' then ''/'' @ p else p);
             np = Clean p
         in if last p = CHR ''/'' \<and> np \<noteq> ''/'' then np @ ''/'' else np))"

datatype response = Redirect string | NotFound404 | Text int string | Page route
  | MetricsPage "series set"

definition serve_route :: "route \<Rightarrow> series set \<Rightarrow> response" where
  "serve_route h S =
     (case h of
        Metrics \<Rightarrow> MetricsPage S
      | Healthz \<Rightarrow> Text 200 ''OK''
      | Readyz \<Rightarrow> Text 200 ''READY''
      | _ \<Rightarrow> Page h)"

text \<open>
  A request for a path: the response, and the cleaner and live series after it. \<open>order\<close> is
  the order in which the metrics handler visits the pending targets.
\<close>

definition serve ::
  "string \<Rightarrow> address list \<Rightarrow> MetricsCleaner \<times> series set \<Rightarrow> response \<times> MetricsCleaner \<times> series set" where
  "serve path order st =
     (let p = cleanPath path in
      if map_of routes p = None \<and> \<not> is_subtree p \<and> map_of routes (p @ ''/'') \<noteq> None
      then (Redirect (p @ ''/''), st)
      else if p \<noteq> path then (Redirect p, st)
      else
        (case mux_match p of
           None \<Rightarrow> (NotFound404, st)
         | Some h \<Rightarrow>
             (serve_route h (snd st), if h = Metrics then Handler delete_live order st else st)))"

subsection \<open>Lemmas\<close>

text \<open>The registered paths are normal, so requests for them are answered at once.\<close>

lemma Clean_routes:
  "Clean ''/metrics'' = ''/metrics''" "Clean ''/healthz'' = ''/healthz''" "Clean ''/readyz'' = ''/readyz''"
  "Clean ''/debug/pprof/heap'' = ''/debug/pprof/heap''"
  by (simp_all add: Clean_def Let_def HasPrefix_def clean_step_def)

lemma cleanPath_routes:
  "cleanPath ''/metrics'' = ''/metrics''" "cleanPath ''/healthz'' = ''/healthz''"
  "cleanPath ''/readyz'' = ''/readyz''" "cleanPath ''/debug/pprof/heap'' = ''/debug/pprof/heap''"
  by (simp_all add: cleanPath_def Let_def HasPrefix_def Clean_routes)

lemma serve_pure:
  "serve path order st = (res, st') \<Longrightarrow> st' \<noteq> st \<Longrightarrow>
    mux_match path = Some Metrics \<and> st' = Handler delete_live order st \<and> res = MetricsPage (snd st)"
  by (auto simp: serve_def serve_route_def Let_def split: option.splits if_splits)

lemma mux_match_Metrics: "mux_match path = Some Metrics \<longleftrightarrow> path = ''/metrics''"
proof
  assume m: "mux_match path = Some Metrics"
  show "path = ''/metrics''"
  proof (cases "map_of routes path")
    case None
    have "filter (\<lambda>(p, h). is_subtree p \<and> HasPrefix path p) routes \<in> {[], [(''/debug/pprof/'', PprofIndex)]}"
      by (simp add: routes_def is_subtree_def)
    with m None show ?thesis by (auto simp: mux_match_def longer_def)
  next
    case (Some h)
    with m show ?thesis by (simp add: mux_match_def routes_def split: if_splits)
  qed
qed (simp add: mux_match_def routes_def)

subsection \<open>Properties\<close>

text \<open>
  C33. Health checks and profiling never touch metrics: only a request for exactly /metrics
  changes anything, and it first shows every live series, the final values of removed targets
  included, before it purges them. /healthz answers OK and /readyz answers READY in every
  state, whatever the informers have done.
\<close>

theorem only_scrapes_purge:
  "(fst (serve path order st) \<noteq> MetricsPage (snd st) \<longrightarrow> snd (serve path order st) = st) \<and>
   serve ''/metrics'' order st = (MetricsPage (snd st), Handler delete_live order st) \<and>
   (snd (serve path order st) \<noteq> st \<longrightarrow> path = ''/metrics'') \<and>
   serve ''/healthz'' order st = (Text 200 ''OK'', st) \<and>
   serve ''/readyz'' order st = (Text 200 ''READY'', st) \<and>
   serve ''/debug/pprof/heap'' order st = (Page PprofIndex, st)"
proof (intro conjI impI)
  obtain res st' where s: "serve path order st = (res, st')" by (cases "serve path order st")
  show "snd (serve path order st) = st" if "fst (serve path order st) \<noteq> MetricsPage (snd st)"
    using serve_pure [OF s] that s by auto
  show "path = ''/metrics''" if "snd (serve path order st) \<noteq> st"
    using serve_pure [OF s] that s by (simp add: mux_match_Metrics)
qed (simp_all add: serve_def cleanPath_routes routes_def is_subtree_def mux_match_def serve_route_def
    HasPrefix_def longer_def)

theorem only_scrapes_purge_witness:
  "serve ''/metrics'' [''a''] (MarkForDeletion ''a'' NewMetricsCleaner, {(TrafficCounter, [''a''])}) =
     (MetricsPage {(TrafficCounter, [''a''])}, \<lparr>pendingDeletes = Map.empty\<rparr>, {})"
  using only_scrapes_purge [of "''/metrics''" "[''a'']"
      "(MarkForDeletion ''a'' NewMetricsCleaner, {(TrafficCounter, [''a''])})"]
  by (simp add: Handler_def collect_expired_def collect_step_def MarkForDeletion_def NewMetricsCleaner_def
      delete_live_def live_DeleteTargetMetrics target_series_def)

end
