(* ===== verification/Startup.thy ===== *)
theory Startup
  imports PoolRefinement Delivery Watchers Kube Server
begin

section \<open>Startup (the head of main)\<close>

text \<open>
  From the process environment to the running goroutines: the parameters, the dispatcher
  with its probers, the job queue, the workers, the clients of the cluster and the registry.
  What the operating system, the cluster and the client libraries answer is the record
  \<open>platform\<close>. The program panics, exits with a code, or runs.
\<close>

record ('e, 'cfg, 'client, 'dyn, 'ctx, 'pool) platform =
  environ :: environment
  inCluster :: "'e + 'cfg"                  \<comment> \<open>\<open>rest.InClusterConfig()\<close>\<close>
  buildConfig :: "string \<Rightarrow> 'e + 'cfg"       \<comment> \<open>\<open>clientcmd.BuildConfigFromFlags("", path)\<close>\<close>
  newClient :: "'cfg \<Rightarrow> 'e + 'client"
  newDynamic :: "'cfg \<Rightarrow> 'e + 'dyn"
  systemPool :: "'pool option"
  emptyPool :: 'pool
  caCert :: "string option"                 \<comment> \<open>the content of the mounted CA file\<close>
  appendCerts :: "string \<Rightarrow> 'pool \<Rightarrow> 'pool"
  net :: "('ctx, 'pool) network"

datatype 'ctx outcome = StartPanic | Exit int | Running "'ctx system"

definition base_transport :: "Config \<Rightarrow> 'pool Transport" where
  "base_transport c =
     \<lparr>MaxIdleConns = maxIdleConns c, MaxIdleConnsPerHost = maxIdleConnsPerHost c,
      IdleConnTimeout = 90 * Second, TLSClientConfig = None\<rparr>"

definition tls_prober :: "('e, 'cfg, 'client, 'dyn, 'ctx, 'pool) platform \<Rightarrow> 'pool tls_config" where
  "tls_prober pf = NewTLSProber None (systemPool pf) (emptyPool pf) (caCert pf) (appendCerts pf)"

definition startup :: "('e, 'cfg, 'client, 'dyn, 'ctx, 'pool) platform \<Rightarrow> 'ctx outcome" where
  "startup pf =
     (let env = environ pf;
          c = load_config env;
          dispatcher = main_dispatcher (net pf) (base_transport c) (tls_prober pf) (maxConcurrentProbes c)
      in case queue_capacity c of
           None \<Rightarrow> StartPanic
         | Some capacity \<Rightarrow>
             (case InitClient (inCluster pf) (buildConfig pf) (newClient pf) env of
                Inl err \<Rightarrow> Exit 1
              | Inr clientset \<Rightarrow>
                  (case InitDynamicClient (inCluster pf) (buildConfig pf) (newDynamic pf) env of
                     Inl err \<Rightarrow> Exit 1
                   | Inr dynClient \<Rightarrow>
                       Running
                         (start_system (get_string env ''POD_IP'') (pool_size c) capacity dispatcher))))"

text \<open>
  The metric calls before the goroutines start: \<open>init\<close> registers the metrics, and main sets
  the gauge of the workers.
\<close>

definition startup_calls :: "environment \<Rightarrow> metric_call list" where
  "startup_calls env =
     RegisterMetrics @ [MSet (MaxWorkersGauge, []) (real_of_int (sint (numWorkers (load_config env))))]"

text \<open>The states of the program that was started on a platform.\<close>

definition program_state ::
  "('e, 'cfg, 'client, 'dyn, 'ctx, 'pool) platform \<Rightarrow> (Unstructured \<Rightarrow> string) \<Rightarrow> 'ctx system \<Rightarrow> bool"
  where
  "program_state pf GetName s \<longleftrightarrow>
     (\<exists>s0. startup pf = Running s0 \<and>
        system_reachable (ParseAddr6 (net pf)) GetName (ticker_ok (load_config (environ pf))) True s0 s)"

subsection \<open>Lemmas\<close>

lemma signals_startup [simp]:
  "gauge (startup_calls env) = 0" "traffic a (startup_calls env) = 0"
  "observed a (startup_calls env) = 0" "errors a (startup_calls env) = 0"
  by (auto simp: signal_defs startup_calls_def RegisterMetrics_def filter_empty_conv)

lemma startup_Running:
  "startup pf = Running s0 \<longleftrightarrow>
    (\<exists>q cfg cl dyn. queue_capacity (load_config (environ pf)) = Some q \<and>
      GetConfig (inCluster pf) (buildConfig pf) (environ pf) = Inr cfg \<and>
      newClient pf cfg = Inr cl \<and> newDynamic pf cfg = Inr dyn \<and>
      s0 = start_system (get_string (environ pf) ''POD_IP'') (pool_size (load_config (environ pf))) q
        (main_dispatcher (net pf) (base_transport (load_config (environ pf))) (tls_prober pf)
        (maxConcurrentProbes (load_config (environ pf)))))"
  by (cases "GetConfig (inCluster pf) (buildConfig pf) (environ pf)")
    (auto simp: startup_def Let_def InitClient_def InitDynamicClient_def init_with_def
      split: option.splits sum.splits)

lemma startup_exits:
  "0 \<le> sint (jobQueueSize (load_config (environ pf))) \<Longrightarrow>
    GetConfig (inCluster pf) (buildConfig pf) (environ pf) = Inl err \<Longrightarrow> startup pf = Exit 1"
  by (simp add: startup_def Let_def queue_capacity_def InitClient_def init_with_def)

lemma program_state_pool:
  assumes "program_state pf GetName s"
  obtains q where "queue_capacity (load_config (environ pf)) = Some q"
    "pool_inv (pool_size (load_config (environ pf))) q
      (main_dispatcher (net pf) (base_transport (load_config (environ pf))) (tls_prober pf)
        (maxConcurrentProbes (load_config (environ pf)))) (pool_of s)"
  using assms pool_reachable_inv [OF pool_of_reachable fresh_main]
  unfolding program_state_def startup_Running by blast

subsection \<open>Properties\<close>

text \<open>A platform inside a cluster, with three parameters set.\<close>

definition ex_platform ::
  "(string, unit, unit, unit, unit, unit) platform" where
  "ex_platform =
     \<lparr>environ = [''WORKERS'' \<mapsto> ''1'', ''QUEUE_SIZE'' \<mapsto> ''1'', ''MAX_CONCURRENT_PROBES'' \<mapsto> ''1''],
      inCluster = Inr (), buildConfig = (\<lambda>_. Inl ''no file''), newClient = Inr, newDynamic = Inr,
      systemPool = None, emptyPool = (), caCert = None, appendCerts = (\<lambda>_ p. p), net = ex_network\<rparr>"

lemma ex_platform_started:
  "load_config (environ ex_platform) =
    \<lparr>debugLog = False, numWorkers = 1, jobQueueSize = 1, probeInterval = 2000000000,
     probeTimeout = 5000000000, maxIdleConns = 1000, maxIdleConnsPerHost = 100, maxConcurrentProbes = 1\<rparr>"
  "startup ex_platform = Running (start_system [] 1 1 ex_dispatcher)"
proof -
  show c: "load_config (environ ex_platform) =
    \<lparr>debugLog = False, numWorkers = 1, jobQueueSize = 1, probeInterval = 2000000000,
     probeTimeout = 5000000000, maxIdleConns = 1000, maxIdleConnsPerHost = 100, maxConcurrentProbes = 1\<rparr>"
    by (simp add: load_config_def ex_platform_def GetInt_def get_string_def Atoi_def is_digit_def
        dec_value_def digit_value_def Second_def)
  have "GetConfig (inCluster ex_platform) (buildConfig ex_platform) (environ ex_platform) = Inr ()"
    by (simp add: ex_platform_def GetConfig_def)
  then show "startup ex_platform = Running (start_system [] 1 1 ex_dispatcher)"
    unfolding startup_Running
    by (simp add: c queue_capacity_def pool_size_def)
      (simp add: ex_platform_def get_string_def ex_dispatcher_def tls_prober_def
        base_transport_def ex_transport_def c)
qed

lemma ex_running_program: "program_state ex_platform ex_GetName ex_running"
  using orderly_reachable_system [OF ex_running_reachable]
  by (simp add: program_state_def ex_platform_started ticker_ok_def)

text \<open>
  C8. The bounds the operator configured hold in every state of the program, from its start
  to the end of its shutdown: WORKERS workers exist, at most that many probes are in flight,
  at most MAX_CONCURRENT_PROBES when that is positive, and at most QUEUE_SIZE jobs wait.
\<close>

theorem program_bounds:
  assumes "program_state pf GetName s"
  shows "let c = load_config (environ pf) in
    length (sys_workers s) = pool_size c \<and>
    count probing_now (sys_workers s) \<le> pool_size c \<and>
    (0 < sint (maxConcurrentProbes c) \<longrightarrow>
      count probing_now (sys_workers s) \<le> nat (sint (maxConcurrentProbes c))) \<and>
    Some (cap (jobs (sys_shared s))) = queue_capacity c \<and>
    length (buf (jobs (sys_shared s))) \<le> nat (sint (jobQueueSize c))"
proof -
  obtain q where q: "queue_capacity (load_config (environ pf)) = Some q"
    "pool_inv (pool_size (load_config (environ pf))) q
      (main_dispatcher (net pf) (base_transport (load_config (environ pf))) (tls_prober pf)
        (maxConcurrentProbes (load_config (environ pf)))) (pool_of s)"
    using assms by (rule program_state_pool)
  then have "cap (jobs (sys_shared s)) = q" "q = nat (sint (jobQueueSize (load_config (environ pf))))"
    by (auto simp: pool_inv_def shared_ok_def pool_of_def queue_capacity_def split: if_splits)
  then show ?thesis
    using q(1) pool_inv_bounds [OF q(2)] by (simp add: Let_def pool_of_def)
qed

theorem program_bounds_witness:
  "length (sys_workers ex_running) = 1 \<and> length (buf (jobs (sys_shared ex_running))) \<le> 1"
  using program_bounds [OF ex_running_program]
  by (simp add: Let_def ex_platform_started pool_size_def)



text \<open>Does a transport accept any certificate?\<close>

definition skips_verification :: "'pool Transport \<Rightarrow> bool" where
  "skips_verification tr \<longleftrightarrow>
     (case TLSClientConfig tr of None \<Rightarrow> False | Some cfg \<Rightarrow> SkipVerify cfg)"

lemma http_client_skips:
  "skips_verification (http_client (NewHTTPProber (base_transport c)) t) \<longleftrightarrow> InsecureSkipVerify t"
  by (simp add: skips_verification_def http_client_def NewHTTPProber_def base_transport_def Let_def)

lemma tls_prober_skips:
  "SkipVerify (target_tls_config (tls_prober pf) a t) \<longleftrightarrow> InsecureSkipVerify t"
  by (simp add: target_tls_config_def tls_prober_def NewTLSProber_def Let_def)

text \<open>
  C21. Certificates are verified unless a StaticTarget asks otherwise: with the transport and
  the configuration main builds, an HTTPS request and a TLS handshake skip the verification
  exactly for the targets with \<open>insecureSkipVerify\<close>, in the whole run every target
  discovered from an EndpointSlice is verified, and the two HTTP clients differ in nothing
  else.
\<close>

theorem verification_skipped_only_on_request:
  fixes pf :: "('e, 'cfg, 'client, 'dyn, 'ctx, 'pool) platform"
  assumes "program_state pf GetName s" "targets (sys_reg s) a = Some t"
  shows "let p = NewHTTPProber (base_transport (load_config (environ pf))) :: 'pool HTTPProber;
      skips = InsecureSkipVerify t in
    (skips_verification (http_client p t) \<longleftrightarrow> skips) \<and>
    (SkipVerify (target_tls_config (tls_prober pf) addr t) \<longleftrightarrow> skips) \<and>
    (\<not> Static t \<longrightarrow> \<not> skips) \<and>
    (http_client p t)\<lparr>TLSClientConfig := None\<rparr> = base_transport (load_config (environ pf))"
proof -
  obtain self where "reachable self (sys_reg s)"
    using assms(1) reachable_registry unfolding program_state_def startup_Running by blast
  then have "\<not> Static t \<longrightarrow> \<not> InsecureSkipVerify t"
    using slice_listedD [OF reachable_inv assms(2)] by blast
  moreover have "(http_client (NewHTTPProber (base_transport c)) t)\<lparr>TLSClientConfig := None\<rparr> = base_transport c" for c
    by (simp add: http_client_def NewHTTPProber_def base_transport_def Let_def)
  ultimately show ?thesis
    by (simp add: Let_def http_client_skips tls_prober_skips)
qed

theorem verification_skipped_only_on_request_witness:
  "\<not> skips_verification
     (http_client (NewHTTPProber (base_transport (load_config (environ ex_platform))) :: unit HTTPProber) late_target)"
proof -
  have "targets (sys_reg ex_running) ''tcp://db:5432'' = Some late_target"
    by (simp add: ex_running_def ex_queued_def late_registry_def Add_state NewRegistry_def is_static_def)
      (simp add: late_target_def)
  from verification_skipped_only_on_request [OF ex_running_program this, of "[]"] show ?thesis
    by (simp add: Let_def late_target_def)
qed

end
