(* ===== verification/Typing.thy ===== *)
theory Typing
  imports Startup
begin

section \<open>The series the program can create\<close>

text \<open>
  The labels of the metrics come from targets: the jobs, the probes under way and so all calls
  of the workers and schedulers are about targets a scheduler was started for. The invariant
  is one of the pool; the program inherits it.
\<close>

definition job_of :: "worker \<Rightarrow> Target set" where
  "job_of w = (case w of Acquiring t \<Rightarrow> {t} | Probing t token \<Rightarrow> {t} | _ \<Rightarrow> {})"

definition shared_typed :: "Target set \<Rightarrow> 'ctx shared \<Rightarrow> bool" where
  "shared_typed T s \<longleftrightarrow>
     job_target ` set (buf (jobs s)) \<subseteq> T \<and> typed_log (Address ` T) (log s) \<and> all_probers (disp s)"

definition started :: "'ctx pool \<Rightarrow> Target set" where
  "started p = sp_target ` set (pool_scheds p)"

definition pool_typed :: "'ctx pool \<Rightarrow> bool" where
  "pool_typed p \<longleftrightarrow>
     shared_typed (started p) (pool_shared p) \<and> (\<forall>w \<in> set (pool_workers p). job_of w \<subseteq> started p)"

lemma job_of_simps [simp]:
  "job_of Idle = {}" "job_of Exited = {}" "job_of (Acquiring t) = {t}" "job_of (Probing t token) = {t}"
  by (simp_all add: job_of_def)

lemma shared_typed_mono: "shared_typed T s \<Longrightarrow> T \<subseteq> T' \<Longrightarrow> shared_typed T' s"
  by (auto simp: shared_typed_def elim!: typed_log_mono)

subsection \<open>The calls of a probe\<close>

lemma known_target:
  "t \<in> T \<Longrightarrow> s \<in> target_series (Address t) \<Longrightarrow> s \<in> known_series (Address ` T)"
  by (auto simp: known_series_def)

lemma typed_begin: "t \<in> T \<Longrightarrow> typed_log (Address ` T) (probe_begin t)"
  by (simp add: probe_begin_def typed_call_def known_seriesI(1) known_target target_series_def global_series_def)

lemma typed_end:
  "t \<in> T \<Longrightarrow> cat \<in> insert [] (set allCategories) \<Longrightarrow> typed_log (Address ` T) (probe_end t v cat)"
  by (auto simp: probe_end_def typed_call_def known_seriesI(1) known_target target_series_def global_series_def)

lemma typed_expiry: "t \<in> T \<Longrightarrow> expiry_only (Address t) cs \<Longrightarrow> typed_log (Address ` T) cs"
  by (induction cs) (auto simp: typed_call_def known_target target_series_def)

lemma typed_drop: "t \<in> T \<Longrightarrow> typed_call (Address ` T) (MInc (DroppedProbesTotal, [Address t]))"
  by (simp add: typed_call_def known_target target_series_def)

lemma CategoryTimeout_listed: "CategoryTimeout \<in> insert [] (set allCategories)"
  by (simp add: allCategories_def)

lemma all_probers_same: "probers d' = probers d \<Longrightarrow> all_probers d \<Longrightarrow> all_probers d'"
  by (simp add: all_probers_def)

lemma worker_typed:
  assumes "worker_step ip6 b (w, s) (w', s')" "shared_typed T s" "job_of w \<subseteq> T"
  shows "shared_typed T s' \<and> job_of w' \<subseteq> T"
  using assms(1)
proof cases
  case (w_take job ch)
  then have "job_target job \<in> T" "job_target ` set (buf ch) \<subseteq> T"
    using assms(2) by (auto simp: shared_typed_def chan_recv_Received)
  with w_take assms(2) show ?thesis by (simp add: shared_typed_def typed_begin)
next
  case (w_token d pd t)
  then show ?thesis
    using assms(2,3) by (auto simp: shared_typed_def acquire_Token intro: all_probers_same [of _ "disp s"])
next
  case (w_timeout pd v t)
  then show ?thesis
    using assms(2,3) typed_end [OF _ CategoryTimeout_listed] by (simp add: shared_typed_def)
next
  case (w_done ctx t cat calls v token d)
  have d: "all_probers (disp s)" using assms(2) by (simp add: shared_typed_def)
  then have "cat \<in> insert [] (set allCategories)" "expiry_only (Address t) calls"
    using prober.category_listed [OF prober_dispatch [OF d]] prober.expiry [OF prober_dispatch [OF d]] w_done(4)
    by (metis fst_conv, metis snd_conv)
  moreover have "all_probers d"
    using w_done(6) d by (auto simp: release_Some intro: all_probers_same [of _ "disp s"] split: if_splits)
  ultimately show ?thesis
    using w_done assms(2,3) typed_expiry typed_end by (simp add: shared_typed_def)
qed (use assms(2,3) in simp_all)

lemma sched_typed:
  "sched_step ok b t (c, s) (c', s') \<Longrightarrow> shared_typed T s \<Longrightarrow> t \<in> T \<Longrightarrow> shared_typed T s'"
  by (erule sched_step_effect) (auto simp: shared_typed_def typed_drop image_subset_iff)

subsection \<open>Everything a pool does is typed\<close>

lemma pool_typed_frame:
  assumes "pool_typed p" "started p \<subseteq> started p'" "shared_typed (started p') (pool_shared p')"
    and "\<And>w. w \<in> set (pool_workers p') \<Longrightarrow> w \<in> set (pool_workers p) \<or> job_of w \<subseteq> started p'"
  shows "pool_typed p'"
  using assms unfolding pool_typed_def by blast

lemma started_update:
  "i < length (pool_scheds p) \<Longrightarrow> sp_target sp = sp_target (pool_scheds p ! i) \<Longrightarrow>
    sp_target ` set ((pool_scheds p)[i := sp]) = started p"
  unfolding started_def by (metis list_update_id map_update set_map)

lemma pool_typed_handoff:
  assumes "pool_typed p" and t: "t \<in> started p" and same: "started p' = started p"
    and w: "pool_workers p' = (pool_workers p)[i := Acquiring t]"
    and sh: "pool_shared p' = (pool_shared p)\<lparr>log := log (pool_shared p) @ probe_begin t\<rparr>"
  shows "pool_typed p'"
proof (rule pool_typed_frame [OF assms(1)])
  have "shared_typed (started p) (pool_shared p)" using assms(1) by (simp add: pool_typed_def)
  then show "shared_typed (started p') (pool_shared p')"
    unfolding same sh using typed_begin [OF t] by (simp add: shared_typed_def)
  show "x \<in> set (pool_workers p) \<or> job_of x \<subseteq> started p'" if "x \<in> set (pool_workers p')" for x
  proof -
    have "x \<in> insert (Acquiring t) (set (pool_workers p))"
      using that set_update_subset_insert unfolding w by fastforce
    then show ?thesis using t unfolding same by auto
  qed
qed (simp add: same)

lemma pool_typed_step:
  assumes "pool_step ip6 ok p p'" "pool_typed p"
  shows "pool_typed p'"
proof -
  have sh: "shared_typed (started p) (pool_shared p)" using assms(2) by (simp add: pool_typed_def)
  from assms(1) show ?thesis
  proof cases
    case (p_worker i w s)
    then have "job_of (pool_workers p ! i) \<subseteq> started p" using assms(2) by (simp add: pool_typed_def)
    from worker_typed [OF p_worker(3) sh this] assms(2) show ?thesis
      using p_worker set_update_subset_insert [of "pool_workers p" i w]
      by (intro pool_typed_frame [OF assms(2)]) (auto simp: started_def)
  next
    case (p_sched i sp c s)
    then have "sp_target sp \<in> started p" unfolding started_def by (metis image_eqI nth_mem)
    from sched_typed [OF p_sched(4) sh this] show ?thesis
      using p_sched started_update [of i p "sp\<lparr>sp_ctl := c\<rparr>"]
      by (intro pool_typed_frame [OF assms(2)]) (simp_all add: started_def)
  next
    case (p_handoff i j sp)
    then have t: "sp_target sp \<in> started p" unfolding started_def by (metis image_eqI nth_mem)
    from pool_typed_handoff [OF assms(2) t] show ?thesis
      using p_handoff started_update [of j p "sp\<lparr>sp_ctl := Waiting\<rparr>"] by (simp add: started_def)
  next
    case (p_start t)
    then show ?thesis
      using sh by (intro pool_typed_frame [OF assms(2)]) (auto simp: started_def intro: shared_typed_mono)
  next
    case (p_cancel i)
    then show ?thesis
      using sh started_update [of i p "(pool_scheds p ! i)\<lparr>sp_cancelled := True\<rparr>"]
      by (intro pool_typed_frame [OF assms(2)]) (simp_all add: started_def)
  next
    case p_cancel_all
    then show ?thesis using assms(2) by (simp add: pool_typed_def started_def)
  next
    case (p_close ch)
    then have "buf ch = buf (jobs (pool_shared p))" by (auto simp: chan_close_def split: if_splits)
    with p_close assms(2) show ?thesis by (simp add: pool_typed_def started_def shared_typed_def)
  next
    case (p_purge a)
    with assms(2) show ?thesis by (simp add: pool_typed_def started_def shared_typed_def)
  qed
qed

lemma pool_typed_start: "all_probers d \<Longrightarrow> pool_typed (start_pool n q d)"
  by (simp add: pool_typed_def shared_typed_def start_pool_def make_chan_def)

lemma pool_typed_reachable:
  "pool_reachable ip6 ok (start_pool n q d) p \<Longrightarrow> all_probers d \<Longrightarrow> pool_typed p"
  by (erule pool.reach_invariant) (auto intro: pool_typed_step pool_typed_start)

lemma started_pool_of:
  "length (sys_ctls s) = length (schedulers (sys_loop s)) \<Longrightarrow>
    started (pool_of s) = sched_target ` set (schedulers (sys_loop s))"
  unfolding started_def pool_of_def procs_def
  by (force simp: in_set_zip set_conv_nth image_iff)

lemma typed_startup: "typed_log A (startup_calls env)"
  by (simp add: startup_calls_def typed_call_def known_seriesI(1) global_series_def)

subsection \<open>Properties\<close>

text \<open>
  C10. Every metric call of the program is well typed: it gives its vector as many label
  values as the vector has labels (the library panics otherwise), and a series it creates is
  global or one of the series of a target the event loop started a scheduler for. So at every
  moment each live series is global or would be deleted with its target, and after the
  deletion of a target none of its series is left.
\<close>

theorem program_series_typed:
  assumes "program_state pf GetName s"
  shows "let calls = startup_calls (environ pf) @ log (sys_shared s);
      addresses = Address ` sched_target ` set (schedulers (sys_loop s)) in
    typed_log addresses calls \<and> live {} calls \<subseteq> known_series addresses \<and>
    live {} (calls @ DeleteTargetMetrics a) \<subseteq> known_series (addresses - {a})"
proof -
  let ?T = "sched_target ` set (schedulers (sys_loop s))"
  obtain self n q d where "system_reachable (ParseAddr6 (net pf)) GetName
      (ticker_ok (load_config (environ pf))) True (start_system self n q d) s" "all_probers d"
    using assms all_probers_main unfolding program_state_def startup_Running by blast
  note this(2) pool_of_reachable [OF this(1)] phase_inv_reachable [OF this(1) phase_inv_start]
  then have "pool_typed (pool_of s)" "phase_inv s"
    using pool_typed_reachable by blast+
  then have "typed_log (Address ` ?T) (log (sys_shared s))"
    using started_pool_of [of s] by (simp add: pool_typed_def shared_typed_def phase_inv_def)
      (simp add: pool_of_def)
  then have "typed_log (Address ` ?T) (startup_calls (environ pf) @ log (sys_shared s))"
    using typed_startup by simp
  with live_typed [OF this] show ?thesis
    using known_series_delete by (simp add: Let_def live_DeleteTargetMetrics)
qed

theorem program_series_typed_witness:
  "live {} (startup_calls (environ ex_platform) @ log (sys_shared ex_running))
     \<subseteq> known_series {''tcp://db:5432''}"
  using program_series_typed [OF ex_running_program]
  by (simp add: Let_def ex_running_def ex_queued_def orphan_loop) (simp add: late_target_def)

end
