(* ===== verification/Shutdown.thy ===== *)
theory Shutdown
  imports PoolRefinement
begin

section \<open>The shutdown can always be completed\<close>

text \<open>
  After the signal no state of the program is a deadlock: whatever main waits for, the
  goroutines it waits for can bring about. The proof goes backwards through the phases of
  main; the schedulers are stopped by their contexts, the event loop drains its channel, and
  the workers drain the queue (the measure of theory Worker decreases).
\<close>

definition stopping_inv :: "nat \<Rightarrow> nat \<Rightarrow> 'ctx Dispatcher \<Rightarrow> 'ctx system \<Rightarrow> bool" where
  "stopping_inv n q d s \<longleftrightarrow>
     phase_inv s \<and> pool_inv n q d (pool_of s) \<and> finite (dom (activeSchedulers (sys_loop s))) \<and>
     (Panicked \<in> set (sys_ctls s) \<longrightarrow> sys_crashed s)"

lemma finite_active:
  "finite (dom (activeSchedulers st)) \<Longrightarrow> finite (dom (activeSchedulers (handle_event e st)))"
  by (auto simp: handle_event_active)

lemma pool_inv_reachable:
  "pool_reachable ip6 ok p p' \<Longrightarrow> all_probers d \<Longrightarrow> pool_inv n q d p \<Longrightarrow> pool_inv n q d p'"
  by (erule pool.reach_invariant) (auto intro: pool_inv_step)

lemma stopping_inv_start: "fresh_dispatcher d \<Longrightarrow> stopping_inv n q d (start_system self n q d)"
  by (simp add: stopping_inv_def phase_inv_start pool_inv_start pool_of_start)
    (simp add: start_system_def new_Loop_def)

lemma stopping_frame:
  assumes "system_step ip6 G ok cb s s'" "finite (dom (activeSchedulers (sys_loop s)))"
    "Panicked \<in> set (sys_ctls s) \<longrightarrow> sys_crashed s"
  shows "finite (dom (activeSchedulers (sys_loop s'))) \<and> (Panicked \<in> set (sys_ctls s') \<longrightarrow> sys_crashed s')"
  using assms(1)
proof cases
  case (y_emit i e es res timer)
  then show ?thesis using assms(2,3) by (cases res) (simp_all add: after_emit_def)
next
  case (y_event e ch)
  then show ?thesis
    using assms(2,3) by (auto simp: loop_receive_def Let_def finite_active)
next
  case (y_sched i c sh)
  then have "Panicked \<notin> set (sys_ctls s)" using assms(3) by simp
  with y_sched assms(2) set_update_subset_insert [of "sys_ctls s" i c] show ?thesis by auto
next
  case (y_handoff i j t)
  with assms(2,3) set_update_subset_insert [of "sys_ctls s" j Waiting] show ?thesis by auto
next
  case y_main
  from y_main(2) show ?thesis
    by cases (use assms(2,3) in \<open>simp_all add: frame_simps\<close>)
qed (use assms(2,3) in simp_all)

lemma stopping_inv_step:
  assumes "stopping_inv n q d s" "all_probers d" "system_step ip6 G ok cb s s'"
  shows "stopping_inv n q d s'"
proof -
  have "pool_reachable ip6 ok (pool_of s) (pool_of s')"
    using assms pool_view.sim_step by (auto simp: stopping_inv_def)
  then show ?thesis
    using assms stopping_frame [OF assms(3)] phase_inv_step [OF _ assms(3)] pool_inv_reachable
    unfolding stopping_inv_def by blast
qed

lemma stopping_inv_reachable:
  "system_reachable ip6 G ok cb s s' \<Longrightarrow> stopping_inv n q d s \<Longrightarrow> all_probers d \<Longrightarrow> stopping_inv n q d s'"
  by (erule prog.reach_invariant) (auto intro: stopping_inv_step)

subsection \<open>Backwards through the phases\<close>

definition completes :: "(string \<Rightarrow> bool) \<Rightarrow> (Unstructured \<Rightarrow> string) \<Rightarrow> 'ctx system \<Rightarrow> bool" where
  "completes ip6 G s \<longleftrightarrow>
     (\<exists>s'. system_reachable ip6 G True False s s' \<and> sys_phase s' = Goodbye \<and> \<not> sys_crashed s')"

lemma completes_run:
  "system_reachable ip6 G True False s s1 \<Longrightarrow> completes ip6 G s1 \<Longrightarrow> completes ip6 G s"
  unfolding completes_def by (blast intro: prog.reach_trans)

lemma completes_step:
  "system_step ip6 G True False s s1 \<Longrightarrow> completes ip6 G s1 \<Longrightarrow> completes ip6 G s"
  by (rule completes_run [OF prog.reach_one])

lemma completes_main:
  assumes "main_step s s1" "stopping_inv n q d s" "fresh_dispatcher d" "\<not> sys_crashed s"
    and "stopping_inv n q d s1 \<Longrightarrow> completes ip6 G s1"
  shows "completes ip6 G s"
proof -
  have step: "system_step ip6 G True False s s1" using assms(4,1) by (rule y_main)
  moreover from this have "completes ip6 G s1"
    using assms(2,3,5) by (auto simp: fresh_dispatcher_def intro: stopping_inv_step)
  ultimately show ?thesis by (rule completes_step)
qed

text \<open>\<open>Shutdown\<close> returns at its deadline at the latest.\<close>

lemma completes_handlers:
  assumes "stopping_inv n q d s" "fresh_dispatcher d" "\<not> sys_crashed s" "sys_phase s = WaitHandlers"
  shows "completes ip6 G s"
proof -
  have "main_step s (s\<lparr>sys_phase := Goodbye\<rparr>)"
    using main_step.m_goodbye [OF assms(4), of True] by simp
  then have "system_step ip6 G True False s (s\<lparr>sys_phase := Goodbye\<rparr>)" by (rule y_main [OF assms(3)])
  with assms(3) show ?thesis
    unfolding completes_def
    by (intro exI [of _ "s\<lparr>sys_phase := Goodbye\<rparr>"]) (simp add: prog.reach_one)
qed

lemma completes_server:
  assumes "stopping_inv n q d s" "fresh_dispatcher d" "\<not> sys_crashed s" "sys_phase s = ShutdownServer"
  shows "completes ip6 G s"
  using completes_main [OF main_step.m_shutdown [OF assms(4)] assms(1-3)] assms(2,3)
  by (simp add: completes_handlers)

lemma completes_workers:
  assumes "stopping_inv n q d s" "fresh_dispatcher d" "\<not> sys_crashed s" "sys_phase s = WaitWorkers"
  shows "completes ip6 G s"
  using assms(1,3,4)
proof (induction "drain_measure (pool_of s)" arbitrary: s rule: less_induct)
  case less
  show ?case
  proof (cases "set (sys_workers s) \<subseteq> {Exited}")
    case True
    from completes_main [OF main_step.m_workers [OF less.prems(3) True] less.prems(1) assms(2) less.prems(2)]
    show ?thesis using assms(2) less.prems(2) by (simp add: completes_server)
  next
    case False
    then obtain w where w: "w \<in> set (pool_workers (pool_of s))" "w \<noteq> Exited"
      by (auto simp: pool_of_def)
    have inv: "pool_inv n q d (pool_of s)" "closed (jobs (pool_shared (pool_of s)))"
    proof -
      show "pool_inv n q d (pool_of s)" using less.prems(1) by (simp add: stopping_inv_def)
      show "closed (jobs (pool_shared (pool_of s)))"
        using less.prems(1,3) by (simp add: stopping_inv_def phase_inv_def closed_phase_defs)
          (simp add: pool_of_def)
    qed
    obtain p' where p': "pool_worker_step ip6 (pool_of s) p'"
      using worker_can_step [OF inv(1) assms(2) inv(2) w] by blast
    then obtain i v sh where i: "i < length (sys_workers s)"
      "worker_step ip6 (sys_done s) (sys_workers s ! i, sys_shared s) (v, sh)"
      and p: "p' = pool_of (s\<lparr>sys_workers := (sys_workers s)[i := v], sys_shared := sh\<rparr>)"
      by (auto simp: pool_worker_step_def pool_of_def)
    let ?s = "s\<lparr>sys_workers := (sys_workers s)[i := v], sys_shared := sh\<rparr>"
    have step: "system_step ip6 G True False s ?s"
      by (rule y_worker [OF less.prems(2) i])
    have "completes ip6 G ?s"
    proof (rule less.hyps)
      show "drain_measure (pool_of ?s) < drain_measure (pool_of s)"
        using pool_worker_step_measure(1) [OF p'] by (simp add: p)
      show "stopping_inv n q d ?s"
        using stopping_inv_step [OF less.prems(1) _ step] assms(2) by (simp add: fresh_dispatcher_def)
    qed (use less.prems in simp_all)
    with step show ?thesis by (rule completes_step)
  qed
qed

lemma completes_jobs:
  assumes "stopping_inv n q d s" "fresh_dispatcher d" "\<not> sys_crashed s" "sys_phase s = CloseJobs"
  shows "completes ip6 G s"
proof -
  have "\<not> closed (jobs (sys_shared s))"
    using assms by (simp add: stopping_inv_def phase_inv_def closed_phase_defs)
  then obtain ch where "chan_close (jobs (sys_shared s)) = Some ch" by (simp add: chan_close_def)
  from completes_main [OF main_step.m_close_jobs [OF assms(4) this] assms(1-3)] show ?thesis
    using assms(2,3) by (simp add: completes_workers)
qed

text \<open>\<open>WatchPeers\<close> gets past the events of its own update.\<close>

lemma peers_sent:
  assumes "phase_inv s" "\<not> sys_crashed s" "sys_done s"
  shows "\<exists>s'. system_reachable ip6 G ok cb s s' \<and> \<not> sys_crashed s' \<and> sys_done s' \<and>
    sys_phase s' = sys_phase s \<and> (\<forall>k i. sys_tasks s' k \<noteq> Updating i)"
proof (cases "\<exists>i. sys_tasks s Peers = Updating i")
  case True
  then obtain i where i: "sys_tasks s Peers = Updating i" "i < length (sys_outboxes s)"
    "\<And>k j. k \<noteq> Peers \<Longrightarrow> sys_tasks s k \<noteq> Updating j"
    using assms(1) unfolding phase_inv_def by blast
  let ?s = "s\<lparr>sys_outboxes := (sys_outboxes s)[i := []]\<rparr>"
  have "system_step ip6 G ok cb ?s (?s\<lparr>sys_tasks := (sys_tasks ?s)(Peers := Blocking)\<rparr>)"
    using i assms(2) by (intro y_peers_sent [of _ i]) simp_all
  from prog.reach_step [OF outbox_given_up [OF assms(2,3) i(2)] this] show ?thesis
    using i(3) assms(2,3)
    by (intro exI [of _ "?s\<lparr>sys_tasks := (sys_tasks ?s)(Peers := Blocking)\<rparr>"]) simp
next
  case False
  with assms prog.reach_refl show ?thesis unfolding phase_inv_def by blast
qed

text \<open>A scheduler whose context is done can return, whatever the queue.\<close>

lemma stop_step:
  assumes "c \<noteq> Panicked" "c \<noteq> Stopped"
  shows "sched_step True True t (c, sh) (Stopped, sh)"
proof -
  have "EnqCtxDone \<in> set (enqueue True t (jobs sh))" by (simp add: enqueue_def Let_def)
  from sched_step.s_first [OF _ this] have "sched_step True True t (Fresh, sh) (Stopped, sh)" by simp
  with assms show ?thesis by (cases c) (simp_all add: sched_step.s_stop)
qed

lemma stop_all:
  assumes "\<not> sys_crashed s" "sys_done s" "Panicked \<notin> set (sys_ctls s)" "k \<le> length (sys_ctls s)"
  shows "system_reachable ip6 G True cb s
    (s\<lparr>sys_ctls := replicate k Stopped @ drop k (sys_ctls s)\<rparr>)"
  using assms(4)
proof (induction k)
  case 0
  then show ?case using system_reachable.sr_start [of ip6 G True cb s] by simp
next
  case (Suc k)
  let ?s = "\<lambda>k. s\<lparr>sys_ctls := replicate k Stopped @ drop k (sys_ctls s)\<rparr>"
  let ?c = "sys_ctls s ! k"
  have k: "k < length (sys_ctls s)" and IH: "system_reachable ip6 G True cb s (?s k)"
    using Suc by simp_all
  have drop: "drop k (sys_ctls s) = ?c # drop (Suc k) (sys_ctls s)"
    using k by (simp add: Cons_nth_drop_Suc)
  then have upd: "(replicate k Stopped @ drop k (sys_ctls s))[k := Stopped]
      = replicate (Suc k) Stopped @ drop (Suc k) (sys_ctls s)"
    by (simp add: list_update_append replicate_append_same)
  show ?case
  proof (cases "?c = Stopped")
    case True
    then have "?s (Suc k) = ?s k" using drop by (simp add: replicate_append_same)
    with IH show ?thesis by simp
  next
    case False
    have "?c \<noteq> Panicked" using assms(3) nth_mem [OF k] by metis
    from stop_step [OF this False] have
      "system_step ip6 G True cb (?s k) ((?s k)\<lparr>sys_ctls := (sys_ctls (?s k))[k := Stopped],
        sys_shared := sys_shared s, sys_crashed := (Stopped = Panicked)\<rparr>)"
      using k drop assms(1,2) by (intro y_sched) (simp_all add: nth_append)
    moreover have "(?s k)\<lparr>sys_ctls := (sys_ctls (?s k))[k := Stopped],
        sys_shared := sys_shared s, sys_crashed := (Stopped = Panicked)\<rparr> = ?s (Suc k)"
      using upd assms(1) by simp
    ultimately show ?thesis using IH by (auto intro: system_reachable.sr_step)
  qed
qed

lemma completes_event_loop:
  assumes "stopping_inv n q d s" "fresh_dispatcher d" "\<not> sys_crashed s" "sys_phase s = WaitEventLoop"
  shows "completes ip6 G s"
  using assms(1,3,4)
proof (induction "length (buf (Events (sys_reg s)))" arbitrary: s)
  case 0
  note prems = "0.prems"
  have closed: "chan_recv (Events (sys_reg s)) = RecvClosed"
    using prems 0 by (simp add: stopping_inv_def phase_inv_def closed_phase_defs chan_recv_def)
  let ?s = "s\<lparr>sys_loop_done := True\<rparr>"
  have step: "system_step ip6 G True False s ?s" by (rule y_loop_done [OF prems(2) closed])
  have inv: "stopping_inv n q d ?s"
    using stopping_inv_step [OF prems(1) _ step] assms(2) by (simp add: fresh_dispatcher_def)
  have main: "main_step ?s (?s\<lparr>sys_phase := CloseJobs\<rparr>)"
    using prems by (intro main_step.m_event_loop) simp_all
  from completes_main [OF main inv assms(2)] have "completes ip6 G ?s"
    using prems assms(2) by (simp add: completes_jobs)
  with step show ?case by (rule completes_step)
next
  case (Suc m)
  note prems = Suc.prems
  show ?case
  proof (cases "sys_loop_done s")
    case True
    from completes_main [OF main_step.m_event_loop [OF prems(3) this] prems(1) assms(2) prems(2)]
    show ?thesis using assms(2) prems(2) by (simp add: completes_jobs)
  next
    case False
    obtain e es where es: "buf (Events (sys_reg s)) = e # es" using Suc.hyps(2) by (cases "buf (Events (sys_reg s))") auto
    let ?ch = "(Events (sys_reg s))\<lparr>buf := es\<rparr>"
    let ?s = "loop_receive e (s\<lparr>sys_reg := (sys_reg s)\<lparr>Events := ?ch\<rparr>\<rparr>)"
    have "system_step ip6 G True False s ?s"
      using es by (intro y_event prems(2) False) (simp add: chan_recv_Received)
    then have step: "system_step ip6 G True False s ?s" .
    have "stopping_inv n q d ?s"
      using stopping_inv_step [OF prems(1) _ step] assms(2) by (simp add: fresh_dispatcher_def)
    then have "completes ip6 G ?s"
      using Suc.hyps(2) es prems(2,3) by (intro Suc.hyps(1)) (simp_all add: loop_receive_def Let_def)
    with step show ?thesis by (rule completes_step)
  qed
qed

lemma completes_informers:
  assumes "stopping_inv n q d s" "fresh_dispatcher d" "\<not> sys_crashed s" "sys_phase s = CloseRegistry"
  shows "completes ip6 G s"
proof -
  have "\<not> closed (Events (sys_reg s))"
    using assms by (simp add: stopping_inv_def phase_inv_def closed_phase_defs)
  then obtain r where "Close (sys_reg s) = Some r" by (simp add: Close_def chan_close_def)
  from completes_main [OF main_step.m_close_registry [OF assms(4) this] assms(1-3)] show ?thesis
    using assms(2,3) by (simp add: completes_event_loop)
qed

lemma completes_tasks:
  assumes "stopping_inv n q d s" "fresh_dispatcher d" "\<not> sys_crashed s" "sys_done s"
    "sys_phase s = WaitInformers"
  shows "completes ip6 G s"
proof -
  have probers: "all_probers d" using assms(2) by (simp add: fresh_dispatcher_def)
  obtain s1 where s1: "system_reachable ip6 G True False s s1" "\<not> sys_crashed s1" "sys_done s1"
    "sys_phase s1 = WaitInformers" "\<And>k i. sys_tasks s1 k \<noteq> Updating i"
    using peers_sent [of s ip6 G True False] assms by (auto simp: stopping_inv_def)
  obtain tasks where tasks: "all_returned tasks" "system_reachable ip6 G True False s1 (s1\<lparr>sys_tasks := tasks\<rparr>)"
    using tasks_return [OF s1(2,3,5)] by blast
  let ?s = "s1\<lparr>sys_tasks := tasks\<rparr>"
  have run: "system_reachable ip6 G True False s ?s" using prog.reach_trans [OF s1(1) tasks(2)] .
  have "main_step ?s (?s\<lparr>sys_phase := CloseRegistry\<rparr>)"
    using tasks(1) s1(4) by (intro main_step.m_informers) simp_all
  from completes_main [OF this stopping_inv_reachable [OF run assms(1) probers] assms(2)]
  have "completes ip6 G ?s"
    using s1(2) assms(2) by (simp add: completes_informers)
  with run show ?thesis by (rule completes_run)
qed

lemma completes_schedulers:
  assumes "stopping_inv n q d s" "fresh_dispatcher d" "\<not> sys_crashed s" "sys_done s"
    "sys_phase s = WaitSchedulers"
  shows "completes ip6 G s"
proof -
  let ?s = "s\<lparr>sys_ctls := replicate (length (sys_ctls s)) Stopped\<rparr>"
  let ?i = "?s\<lparr>sys_phase := WaitInformers\<rparr>"
  have probers: "all_probers d" using assms(2) by (simp add: fresh_dispatcher_def)
  have run: "system_reachable ip6 G True False s ?s"
    using stop_all [of s "length (sys_ctls s)"] assms
    by (simp add: stopping_inv_def)
  have 1: "main_step ?s ?i" using assms(5) by (intro main_step.m_schedulers) (simp_all, auto)
  have inv: "stopping_inv n q d ?s" by (rule stopping_inv_reachable [OF run assms(1) probers])
  from completes_main [OF 1 inv assms(2)] have "completes ip6 G ?s"
    using assms(2-4) by (simp add: completes_tasks)
  with run show ?thesis by (rule completes_run)
qed

lemma completes_signal:
  assumes "stopping_inv n q d s" "fresh_dispatcher d" "\<not> sys_crashed s" "sys_done s"
    "sys_phase s \<in> {Serving, CancelSchedulers}"
  shows "completes ip6 G s"
proof -
  have cancel: "completes ip6 G s"
    if inv: "stopping_inv n q d s" and ok: "\<not> sys_crashed s" "sys_done s"
      and ph: "sys_phase s = CancelSchedulers" for s
  proof -
    obtain order where "range_order order (activeSchedulers (sys_loop s))"
      using inv range_order_exists unfolding stopping_inv_def by blast
    from completes_main [OF main_step.m_cancel [OF ph this] inv assms(2) ok(1)] show ?thesis
      using ok assms(2) by (simp add: completes_schedulers)
  qed
  show ?thesis
  proof (cases "sys_phase s = Serving")
    case True
    from completes_main [OF main_step.m_signal [OF this assms(4)] assms(1-3)] show ?thesis
      using cancel assms(3,4) by simp
  qed (use cancel assms in simp)
qed

lemma completes_from:
  assumes "stopping_inv n q d s" "fresh_dispatcher d" "\<not> sys_crashed s" "sys_done s"
  shows "completes ip6 G s"
proof (cases "sys_phase s")
  case Goodbye
  then show ?thesis
    using assms(3) system_reachable.sr_start unfolding completes_def by blast
qed (use assms in \<open>simp_all add: completes_signal completes_schedulers completes_tasks completes_informers
  completes_event_loop completes_jobs completes_workers completes_server completes_handlers\<close>)

subsection \<open>Properties\<close>

text \<open>
  C13. Shutdown is never stuck: in every state the program reaches after the signal without a
  panic, with any backlog of events and jobs, probes under way and callbacks unfinished, the
  goroutines can bring main to its end without a panic. No wait for schedulers, event loop or
  workers is a deadlock.
\<close>

theorem shutdown_can_complete:
  assumes "system_reachable ip6 GetName True callbacks
      (start_system self n q (main_dispatcher nw tr cfg maxProbes)) s"
    and "sys_done s" "\<not> sys_crashed s"
  shows "\<exists>s'. system_reachable ip6 GetName True False s s' \<and> sys_phase s' = Goodbye \<and>
    \<not> sys_crashed s' \<and> set (sys_workers s') \<subseteq> {Exited}"
proof -
  let ?d = "main_dispatcher nw tr cfg maxProbes"
  have inv: "stopping_inv n q ?d s"
    using stopping_inv_reachable [OF assms(1) stopping_inv_start [OF fresh_main] all_probers_main] .
  from completes_from [OF this fresh_main assms(3,2)] obtain s' where
    s': "system_reachable ip6 GetName True False s s'" "sys_phase s' = Goodbye" "\<not> sys_crashed s'"
    unfolding completes_def by blast
  with stopping_inv_reachable [OF s'(1) inv all_probers_main] show ?thesis
    by (auto simp: stopping_inv_def phase_inv_def less_eq_phase_def)
qed

theorem shutdown_can_complete_witness:
  "\<exists>s'. system_reachable (\<lambda>_. True) ex_GetName True False ex_stopping s' \<and> sys_phase s' = Goodbye \<and>
    \<not> sys_crashed s' \<and> set (sys_workers s') \<subseteq> {Exited}"
  by (rule shutdown_can_complete [OF ex_stopping_reachable [unfolded ex_dispatcher_def, of _ _ _ True]])
    (simp_all add: ex_stopping_def start_system_def)

end
