(* ===== verification/FinalMetrics.thy ===== *)
theory FinalMetrics
  imports Shutdown Startup
begin

section \<open>The metrics are complete when the server shuts down\<close>

text \<open>
  Main shuts the telemetry server down "after all metrics updates are complete": from then on
  the workers have exited and the queue is closed, so no goroutine counts anything. Only a
  scrape that is in progress can still delete the series of removed targets.
\<close>

definition only_deletions :: "metric_call list \<Rightarrow> metric_call list \<Rightarrow> bool" where
  "only_deletions l l' \<longleftrightarrow> (\<exists>as. l' = l @ concat (map DeleteTargetMetrics as))"

lemma only_deletions_refl: "only_deletions l l"
  unfolding only_deletions_def by (rule exI [of _ "[]"]) simp

lemma only_deletions_one: "only_deletions l (l @ DeleteTargetMetrics a)"
  unfolding only_deletions_def by (rule exI [of _ "[a]"]) simp

lemma only_deletions_trans:
  assumes "only_deletions l l'" "only_deletions l' l''"
  shows "only_deletions l l''"
proof -
  obtain xs ys where "l' = l @ concat (map DeleteTargetMetrics xs)" "l'' = l' @ concat (map DeleteTargetMetrics ys)"
    using assms unfolding only_deletions_def by blast
  then show ?thesis unfolding only_deletions_def by (intro exI [of _ "xs @ ys"]) simp
qed

lemma closed_phases:
  assumes "phase_inv s" "ShutdownServer \<le> sys_phase s"
  shows "closed (jobs (sys_shared s))" "set (sys_workers s) \<subseteq> {Exited}"
    "WaitHandlers \<le> sys_phase s \<Longrightarrow> sys_server s = SrvClosed"
  using assms by (auto simp: phase_inv_def jobs_closed_phase_def less_eq_phase_def)

lemma late_step:
  assumes "phase_inv s" "ShutdownServer \<le> sys_phase s" "system_step ip6 G ok cb s s'"
  shows "only_deletions (log (sys_shared s)) (log (sys_shared s'))"
    "WaitHandlers \<le> sys_phase s \<Longrightarrow> length (sys_requests s') = length (sys_requests s)"
proof -
  note inv = closed_phases [OF assms(1,2)]
  have exited: "w = Exited" if "w \<in> set (sys_workers s)" for w using inv(2) that by blast
  have "only_deletions (log (sys_shared s)) (log (sys_shared s')) \<and>
    (WaitHandlers \<le> sys_phase s \<longrightarrow> length (sys_requests s') = length (sys_requests s))"
    using assms(3)
  proof cases
    case (y_emit i e es res timer)
    then show ?thesis by (cases res) (simp_all add: after_emit_def only_deletions_refl)
  next
    case (y_event e ch)
    then show ?thesis by (simp add: loop_receive_def Let_def only_deletions_refl)
  next
    case (y_worker i w sh)
    then show ?thesis using exited [OF nth_mem [OF y_worker(3)]] worker_step_closed [OF y_worker(4)] by simp
  next
    case (y_sched i c sh)
    from y_sched(4) have "log sh = log (sys_shared s)"
      by (cases rule: sched_step_effect) (use inv(1) in simp_all)
    with y_sched show ?thesis by (simp add: only_deletions_refl)
  next
    case (y_handoff i j t)
    then show ?thesis using inv(1) by (simp add: handoff_ready_def)
  next
    case y_request
    then show ?thesis using inv(3) by (auto simp: only_deletions_refl)
  next
    case (y_delete i a as)
    then show ?thesis by (simp add: only_deletions_one)
  next
    case y_main
    from y_main(2) show ?thesis
      by cases (simp_all add: only_deletions_refl)
  qed (simp_all add: only_deletions_refl)
  then show "only_deletions (log (sys_shared s)) (log (sys_shared s'))"
    "WaitHandlers \<le> sys_phase s \<Longrightarrow> length (sys_requests s') = length (sys_requests s)" by blast+
qed

lemma late_run:
  assumes "system_reachable ip6 G ok cb s s'" "phase_inv s" "ShutdownServer \<le> sys_phase s"
  shows "sys_phase s \<le> sys_phase s' \<and> only_deletions (log (sys_shared s)) (log (sys_shared s')) \<and>
    (WaitHandlers \<le> sys_phase s \<longrightarrow> length (sys_requests s') = length (sys_requests s))"
  using assms(1)
proof (rule prog.reach_invariant)
  fix u v
  assume u: "system_reachable ip6 G ok cb s u" "system_step ip6 G ok cb u v"
    "sys_phase s \<le> sys_phase u \<and> only_deletions (log (sys_shared s)) (log (sys_shared u)) \<and>
    (WaitHandlers \<le> sys_phase s \<longrightarrow> length (sys_requests u) = length (sys_requests s))"
  have "phase_inv u" by (rule phase_inv_reachable [OF u(1) assms(2)])
  moreover have "ShutdownServer \<le> sys_phase u" using assms(3) u(3) by (blast intro: order.trans)
  ultimately show "sys_phase s \<le> sys_phase v \<and> only_deletions (log (sys_shared s)) (log (sys_shared v)) \<and>
    (WaitHandlers \<le> sys_phase s \<longrightarrow> length (sys_requests v) = length (sys_requests s))"
    using late_step [OF _ _ u(2)] phase_forward [OF u(2)] u(3)
    by (auto intro: only_deletions_trans order.trans)
qed (simp add: only_deletions_refl)

lemma no_probe_counts:
  assumes "set ws \<subseteq> {Exited}"
  shows "count busy ws = 0" "count (busy_on a) ws = 0"
  using assms by (auto simp: filter_empty_conv worker_preds)

lemma ex_goodbye:
  "\<exists>s. program_state ex_platform ex_GetName s \<and> sys_phase s = Goodbye"
proof -
  let ?ip6 = "ParseAddr6 (net ex_platform)"
  let ?start = "start_system [] 1 1 ex_dispatcher"
  have r: "system_reachable ?ip6 ex_GetName True True ?start ex_running"
    by (rule orderly_reachable_system [OF ex_running_reachable])
  have "\<not> sys_crashed ex_running" by (simp add: ex_running_def ex_queued_def)
  then have r1: "system_reachable ?ip6 ex_GetName True True ?start (ex_running\<lparr>sys_done := True\<rparr>)"
    by (intro prog.reach_step [OF r] y_signal)
  have "fresh_dispatcher ex_dispatcher" "all_probers ex_dispatcher"
    by (simp_all add: ex_dispatcher_def fresh_main all_probers_main)
  from completes_from [OF stopping_inv_reachable [OF r1 stopping_inv_start [OF this(1)] this(2)] this(1)]
  obtain s where "system_reachable ?ip6 ex_GetName True False (ex_running\<lparr>sys_done := True\<rparr>) s"
    "sys_phase s = Goodbye"
    by (auto simp: completes_def ex_running_def ex_queued_def)
  with prog.reach_trans [OF r1 callbacks_optional_run] show ?thesis
    by (auto simp: program_state_def ex_platform_started ticker_ok_def)
qed

subsection \<open>Properties\<close>



end
