(* ===== verification/Convergence.thy ===== *)
theory Convergence
  imports Delivery
begin

section \<open>Delivery can always be completed\<close>

text \<open>
  While the program serves, no event can get stuck: if the channel has an event the loop can
  take it, and if it has none, a callback can send. Each removes one event from what is waiting,
  and neither gives anything up, so the delivery stays orderly.
\<close>

lemma events_capacity:
  "system_reachable ip6 G ok cb (start_system self n q d) s \<Longrightarrow> cap (Events (sys_reg s)) = 1000"
proof (erule prog.reach_invariant)
  show "cap (Events (sys_reg (start_system self n q d))) = 1000"
    by (simp add: start_system_def NewRegistry_def make_chan_def)
next
  fix u v :: "'a system"
  assume inv: "cap (Events (sys_reg u)) = 1000" and "system_step ip6 G ok cb u v"
  from this(2) show "cap (Events (sys_reg v)) = 1000"
  proof cases
    case (y_callback x r events)
    then show ?thesis using inv Events_frame [of G "sys_reg u" x] by simp
  next
    case (y_peers order store r events)
    then show ?thesis using inv Events_frame [of G "sys_reg u" "PeersChanged store order"] by simp
  next
    case (y_emit i e es res timer)
    then show ?thesis
      using inv by (cases res) (auto simp: after_emit_def emitEvent_def send_case_def chan_send_def
          split: if_splits)
  next
    case (y_event e ch)
    then show ?thesis using inv by (auto simp: loop_receive_def Let_def chan_recv_Received)
  next
    case y_main
    from y_main(2) show ?thesis
      using inv by cases (auto simp: Close_def chan_close_def split: if_splits)
  qed (use inv in simp_all)
qed

text \<open>What a run that only delivers keeps.\<close>

definition delivering :: "'ctx system \<Rightarrow> bool" where
  "delivering s \<longleftrightarrow> \<not> sys_crashed s \<and> \<not> sys_done s \<and> \<not> sys_loop_done s \<and>
     \<not> closed (Events (sys_reg s)) \<and> 0 < cap (Events (sys_reg s))"

definition same_targets :: "'ctx system \<Rightarrow> 'ctx system \<Rightarrow> bool" where
  "same_targets s s' \<longleftrightarrow> (\<exists>ch. sys_reg s' = (sys_reg s)\<lparr>Events := ch\<rparr>)"

lemma same_targets_refl: "same_targets s s"
  unfolding same_targets_def by (rule exI [of _ "Events (sys_reg s)"]) simp

lemma same_targets_trans: "same_targets s s' \<Longrightarrow> same_targets s' s'' \<Longrightarrow> same_targets s s''"
  unfolding same_targets_def by auto

definition waiting :: "'ctx system \<Rightarrow> nat" where
  "waiting s = length (buf (Events (sys_reg s))) + 2 * length (concat (sys_outboxes s))"

lemma waiting_0: "waiting s = 0 \<longleftrightarrow> backlog s = []"
  by (simp add: waiting_def backlog_def del: concat_eq_Nil_conv)

lemma length_concat_update:
  "i < length out \<Longrightarrow> out ! i = e # es \<Longrightarrow> length (concat out) = Suc (length (concat (out[i := es])))"
proof (induction out arbitrary: i)
  case (Cons o' out)
  then show ?case by (cases i) auto
qed simp

lemma deliver_one:
  assumes "delivering s" "0 < waiting s"
  shows "\<exists>s'. system_step ip6 G ok False s s' \<and> orderly s s' \<and> delivering s' \<and> same_targets s s' \<and>
    waiting s' < waiting s"
proof (cases "buf (Events (sys_reg s))")
  case (Cons e es)
  let ?ch = "(Events (sys_reg s))\<lparr>buf := es\<rparr>"
  let ?s = "loop_receive e (s\<lparr>sys_reg := (sys_reg s)\<lparr>Events := ?ch\<rparr>\<rparr>)"
  have "system_step ip6 G ok False s ?s"
    using assms(1) Cons by (intro y_event) (simp_all add: delivering_def chan_recv_Received)
  moreover have "orderly s ?s" by (simp add: orderly_def loop_receive_def Let_def)
  moreover have "delivering ?s" "same_targets s ?s" "waiting ?s < waiting s"
    using assms(1) Cons
    by (auto simp: delivering_def same_targets_def waiting_def loop_receive_def Let_def)
  ultimately show ?thesis by blast
next
  case Nil
  then have "concat (sys_outboxes s) \<noteq> []"
    using assms(2) by (simp add: waiting_def del: concat_eq_Nil_conv)
  then obtain out where "out \<in> set (sys_outboxes s)" "out \<noteq> []" by auto
  then obtain i e es where i: "i < length (sys_outboxes s)" "sys_outboxes s ! i = e # es"
    by (metis in_set_conv_nth neq_Nil_conv)
  let ?ch = "(Events (sys_reg s))\<lparr>buf := [e]\<rparr>"
  let ?s = "after_emit (Delivered ?ch) (s\<lparr>sys_outboxes := (sys_outboxes s)[i := es]\<rparr>)"
  have "Delivered ?ch \<in> set (emitEvent (informerCtx_done s) False e (Events (sys_reg s)))"
    using assms(1) Nil by (simp add: emitEvent_def send_case_def chan_send_def delivering_def)
  then have "system_step ip6 G ok False s ?s"
    using assms(1) i by (intro y_emit) (simp_all add: delivering_def)
  moreover have "Events (sys_reg ?s) \<noteq> Events (sys_reg s)"
    using Nil by (auto simp: after_emit_def) (metis chan.select_convs(1) chan.surjective chan.update_convs(1) list.distinct(1))
  then have "orderly s ?s" by (simp add: orderly_def after_emit_def)
  moreover have "delivering ?s" "same_targets s ?s"
    using assms(1) by (auto simp: delivering_def same_targets_def after_emit_def)
  moreover have "waiting ?s < waiting s"
    using Nil length_concat_update [OF i] by (simp add: waiting_def after_emit_def)
  ultimately show ?thesis by blast
qed

lemma deliver_all:
  "delivering s \<Longrightarrow> \<exists>s'. orderly_reachable ip6 G ok False s s' \<and> delivering s' \<and> same_targets s s' \<and>
    backlog s' = []"
proof (induction "waiting s" arbitrary: s rule: less_induct)
  case less
  show ?case
  proof (cases "waiting s = 0")
    case True
    then show ?thesis
      using less.prems same_targets_refl orderly_reachable.or_start unfolding waiting_0 by blast
  next
    case False
    then obtain s1 where s1: "system_step ip6 G ok False s s1" "orderly s s1" "delivering s1"
      "same_targets s s1" "waiting s1 < waiting s"
      using deliver_one [OF less.prems] by blast
    from less.hyps [OF s1(5,3)] obtain s2 where s2: "orderly_reachable ip6 G ok False s1 s2"
      "delivering s2" "same_targets s1 s2" "backlog s2 = []" by blast
    have "orderly_reachable ip6 G ok False s s1"
      using orderly_reachable.or_step [OF orderly_reachable.or_start] s1(1,2) by blast
    from orderly_run.reach_trans [OF this s2(1)] show ?thesis
      using s2 same_targets_trans [OF s1(4)] by blast
  qed
qed

lemma delivering_state:
  assumes "system_reachable ip6 G ok cb (start_system self n q d) s" "\<not> sys_done s" "\<not> sys_crashed s"
  shows "delivering s"
proof -
  have "phase_inv s" by (rule phase_inv_reachable [OF assms(1) phase_inv_start])
  then show ?thesis
    using assms(2,3) events_capacity [OF assms(1)]
    by (auto simp: delivering_def phase_inv_def registry_closed_phase_def less_eq_phase_def)
qed

subsection \<open>Properties\<close>

text \<open>
  C3. Every announced change can be carried out: from any state of an orderly run before the
  signal, with any backlog (the channel full, several events still to be sent), the callbacks
  and the event loop alone can deliver and handle everything, without giving up an event and
  without a panic, and then the goroutines that wait for ticks probe exactly the targets that
  were known and owned in the first state.
\<close>

theorem delivery_can_complete:
  assumes "orderly_reachable ip6 GetName interval_ok callbacks (start_system self n q d) s"
    and "\<not> sys_done s" "\<not> sys_crashed s"
  shows "\<exists>s'. orderly_reachable ip6 GetName interval_ok False s s' \<and> backlog s' = [] \<and>
    \<not> sys_done s' \<and> \<not> sys_crashed s' \<and>
    ticking s' =
      {a. targets (sys_reg s) a \<noteq> None \<and> evalShardingOwner a self (clusterPodIPs (sys_reg s)) = Some True}"
proof -
  obtain s' where s': "orderly_reachable ip6 GetName interval_ok False s s'" "delivering s'"
    "same_targets s s'" "backlog s' = []"
    using deliver_all [OF delivering_state [OF orderly_reachable_system [OF assms(1)] assms(2,3)]] by blast
  have "orderly_reachable ip6 GetName interval_ok callbacks (start_system self n q d) s'"
    using orderly_run.reach_trans [OF assms(1) orderly_callbacks_optional [OF s'(1)]] .
  from delivered_ticking [OF this] s' show ?thesis
    by (intro exI [of _ s']) (auto simp: delivering_def same_targets_def)
qed

theorem delivery_can_complete_witness:
  "ticking ex_announced = {} \<and>
   (\<exists>s'. orderly_reachable (\<lambda>_. True) ex_GetName True False ex_announced s' \<and>
      ticking s' = {''tcp://db:5432''})"
proof
  show "ticking ex_announced = {}" by (simp add: ticking_def ex_announced_def)
  have "{a. targets late_registry a \<noteq> None \<and> evalShardingOwner a [] (clusterPodIPs late_registry) = Some True}
      = {''tcp://db:5432''}"
    by (simp add: late_registry_def Add_state evalShardingOwner_def)
      (simp add: NewRegistry_def is_static_def late_target_def)
  then show "\<exists>s'. orderly_reachable (\<lambda>_. True) ex_GetName True False ex_announced s' \<and>
      ticking s' = {''tcp://db:5432''}"
    using delivery_can_complete [OF ex_announced_reachable [of "\<lambda>_. True"]]
    by (auto simp: ex_announced_def)
qed

end
