(* ===== verification/StaleSeries.thy ===== *)
theory StaleSeries
  imports Delivery
begin

section \<open>Series of removed targets\<close>

text \<open>
  The purge of a removed target happens once, at a scrape; a job of the target can still be in
  the queue then. The worker that takes it counts again, so the series come back, and nothing
  deletes them any more.
\<close>

definition gone_registry :: Registry where
  "gone_registry = fst (Remove ''tcp://db:5432'' late_registry)"

lemma gone_callback:
  "informer_step ex_GetName late_registry (CRDDeleted (Object (ex_crd ''db:5432'')))
    = (gone_registry, [removed late_target])"
  "Events gone_registry = make_chan 1000" "targets gone_registry ''tcp://db:5432'' = None"
proof -
  have mine: "shouldProcessTargetLocked r ''tcp://db:5432''" if "clusterPodIPs r = []" for r
    using that by (simp add: shouldProcessTargetLocked_def evalShardingOwner_def)
  have "targets late_registry ''tcp://db:5432'' = Some late_target"
    "get_bool (active late_registry) ''tcp://db:5432''"
    by (simp_all add: late_registry_def Add_state is_static_def NewRegistry_def late_target_def mine)
  then show "informer_step ex_GetName late_registry (CRDDeleted (Object (ex_crd ''db:5432'')))
      = (gone_registry, [removed late_target])"
    "Events gone_registry = make_chan 1000" "targets gone_registry ''tcp://db:5432'' = None"
    using late_callback(2)
    by (simp_all add: static_handler_ops static_delete_op_def parse_ex_crd deleted_object_def
        gone_registry_def Remove_def Let_def)
qed

text \<open>The loop after the removal was handled, and after the next scrape.\<close>

definition stopped_loop :: Loop where
  "stopped_loop = handle_event (removed late_target) (handle_event (added late_target) new_Loop)"

lemma stopped_loop_fields:
  "schedulers stopped_loop = [\<lparr>sched_target = late_target, cancelled = True\<rparr>]"
  "pendingDeletes (cleaner stopped_loop) = [''tcp://db:5432'' \<mapsto> 1]"
  "collect_expired [''tcp://db:5432''] (cleaner stopped_loop) = (NewMetricsCleaner, [''tcp://db:5432''])"
proof -
  have a: "Address late_target = ''tcp://db:5432''" by (simp add: late_target_def)
  show "schedulers stopped_loop = [\<lparr>sched_target = late_target, cancelled = True\<rparr>]"
    and p: "pendingDeletes (cleaner stopped_loop) = [''tcp://db:5432'' \<mapsto> 1]"
    by (simp_all add: stopped_loop_def handle_event_def spawn_def new_Loop_def cancelFunc_def Let_def
        MarkForDeletion_def AbortDeletion_def NewMetricsCleaner_def a)
  show "collect_expired [''tcp://db:5432''] (cleaner stopped_loop) = (NewMetricsCleaner, [''tcp://db:5432''])"
    using p by (simp add: collect_expired_def collect_step_def NewMetricsCleaner_def)
qed

text \<open>
  The state between the two halves of a scrape: the handler has collected the target, with the
  lock of the cleaner released, and has not yet deleted its series; a job of it is still queued.
\<close>

definition collected_system :: "unit system" where
  "collected_system =
     \<lparr>sys_reg = gone_registry, sys_outboxes = [[], []], sys_tasks = (\<lambda>_. Syncing),
      sys_loop = stopped_loop\<lparr>cleaner := NewMetricsCleaner\<rparr>, sys_loop_done = False,
      sys_ctls = [Waiting], sys_workers = [Idle],
      sys_shared = \<lparr>jobs = ex_queue, disp = ex_dispatcher, log = []\<rparr>, sys_server = SrvListening,
      sys_requests = [Purging [''tcp://db:5432'']], sys_done = False, sys_phase = Serving, sys_crashed = False\<rparr>"

lemma collected_reachable:
  "system_reachable ip6 ex_GetName True True (start_system [] 1 1 ex_dispatcher) collected_system"
proof -
  let ?R = "system_reachable ip6 ex_GetName True True (start_system [] 1 1 ex_dispatcher)"
  let ?r = "\<lambda>xs. gone_registry\<lparr>Events := (make_chan 1000)\<lparr>buf := xs\<rparr>\<rparr>"
  let ?S = "\<lambda>r out l rq. \<lparr>sys_reg = r, sys_outboxes = out, sys_tasks = (\<lambda>_. Syncing), sys_loop = l,
      sys_loop_done = False, sys_ctls = [Waiting], sys_workers = [Idle],
      sys_shared = \<lparr>jobs = ex_queue, disp = ex_dispatcher, log = []\<rparr>, sys_server = SrvListening,
      sys_requests = rq, sys_done = False, sys_phase = Serving, sys_crashed = False\<rparr>"
  let ?l = "handle_event (added late_target) new_Loop"
  note step = system_reachable.sr_step
  have none: "?r [] = gone_registry"
    by (rule Registry.equality) (simp_all add: gone_callback(2) make_chan_def)
  have 1: "?R (?S gone_registry [[], [removed late_target]] ?l [])"
    using step [OF orderly_reachable_system [OF ex_queued_reachable]
        y_callback [of _ True "CRDDeleted (Object (ex_crd ''db:5432''))" ex_GetName
          gone_registry "[removed late_target]"]] gone_callback(1)
    by (simp add: ex_queued_def)
  have "Delivered ((make_chan 1000)\<lparr>buf := [removed late_target]\<rparr>)
      \<in> set (emitEvent False False (removed late_target) (Events gone_registry))"
    by (simp add: gone_callback(2) emitEvent_def send_case_def channel_defs)
  then have 2: "?R (?S (?r [removed late_target]) [[], []] ?l [])"
    using step [OF 1 y_emit [of _ 1 "removed late_target" "[]" _ False]] by (force simp: after_emit_def)
  have "chan_recv (Events (?r [removed late_target])) = Received (removed late_target) (make_chan 1000)"
    by (simp add: channel_defs)
  moreover have "length (schedulers stopped_loop) = 1" by (simp add: stopped_loop_fields)
  ultimately have 3: "?R (?S gone_registry [[], []] stopped_loop [])"
    using step [OF 2 y_event [of _ "removed late_target" "make_chan 1000"]] none
    by (simp add: loop_receive_def Let_def make_chan_def flip: stopped_loop_def)
  have "range_order [''tcp://db:5432''] (pendingDeletes (cleaner stopped_loop))"
    by (simp add: stopped_loop_fields range_order_def)
  moreover have 4: "?R (?S gone_registry [[], []] stopped_loop [Accepted])"
    using step [OF 3 y_request] by simp
  ultimately show ?thesis
    using step [OF 4 y_scrape [of _ 0 "[''tcp://db:5432'']"]] stopped_loop_fields(3)
    by (simp add: collected_system_def)
qed

text \<open>The deletion comes first, then a worker takes the queued job.\<close>

definition stale_system :: "unit system" where
  "stale_system = collected_system\<lparr>sys_requests := [Purging []], sys_workers := [Acquiring late_target],
     sys_shared := \<lparr>jobs = make_chan 1, disp = ex_dispatcher,
       log = DeleteTargetMetrics ''tcp://db:5432'' @ probe_begin late_target\<rparr>\<rparr>"

lemma stale_reachable:
  "system_reachable ip6 ex_GetName True True (start_system [] 1 1 ex_dispatcher) stale_system"
proof -
  let ?R = "system_reachable ip6 ex_GetName True True (start_system [] 1 1 ex_dispatcher)"
  note step = system_reachable.sr_step
  have "?R (collected_system\<lparr>sys_requests := [Purging []],
      sys_shared := \<lparr>jobs = ex_queue, disp = ex_dispatcher, log = DeleteTargetMetrics ''tcp://db:5432''\<rparr>\<rparr>)"
    using step [OF collected_reachable y_delete [of _ 0 "''tcp://db:5432''" "[]"]]
    by (simp add: collected_system_def)
  from step [OF this y_worker [of _ 0 ip6 "Acquiring late_target"]] show ?thesis
    using ex_take [of ip6 "DeleteTargetMetrics ''tcp://db:5432''"]
    by (simp add: stale_system_def collected_system_def)
qed

text \<open>
  A worker takes the job first, and the target is added again and announced; the deletion comes
  last.
\<close>

definition back_registry :: Registry where
  "back_registry = fst (Add late_target gone_registry)"

lemma back_callback:
  "informer_step ex_GetName gone_registry (CRDAdded (Object (ex_crd ''db:5432'')))
    = (back_registry, [added late_target])"
  "Events back_registry = make_chan 1000" "targets back_registry ''tcp://db:5432'' = Some late_target"
proof -
  have "snd (Add late_target gone_registry) = [added late_target]"
    using gone_callback(3) by (simp add: Add_def Let_def gone_registry_def late_registry_def Remove_def
        NewRegistry_def late_target_def shouldProcessTargetLocked_def evalShardingOwner_def)
  then show "informer_step ex_GetName gone_registry (CRDAdded (Object (ex_crd ''db:5432'')))
      = (back_registry, [added late_target])"
    by (simp add: static_handler_ops static_add_op_def parse_ex_crd back_registry_def late_target_def
        prod_eq_iff)
  show "Events back_registry = make_chan 1000" "targets back_registry ''tcp://db:5432'' = Some late_target"
    using gone_callback(2,3)
    by (simp_all add: back_registry_def Add_state is_static_def late_target_def)
qed

definition back_loop :: Loop where
  "back_loop = handle_event (added late_target) (stopped_loop\<lparr>cleaner := NewMetricsCleaner\<rparr>)"

lemma back_loop_fields:
  "schedulers back_loop =
    [\<lparr>sched_target = late_target, cancelled = True\<rparr>, \<lparr>sched_target = late_target, cancelled = False\<rparr>]"
  "pendingDeletes (cleaner back_loop) = Map.empty"
  by (simp_all add: back_loop_def stopped_loop_def handle_event_def spawn_def new_Loop_def cancelFunc_def
      Let_def AbortDeletion_def NewMetricsCleaner_def MarkForDeletion_def)

definition reset_system :: "unit system" where
  "reset_system = collected_system\<lparr>sys_workers := [Acquiring late_target],
     sys_reg := back_registry, sys_outboxes := [[], [], []], sys_loop := back_loop,
     sys_ctls := [Waiting, Fresh], sys_requests := [Purging []],
     sys_shared := \<lparr>jobs = make_chan 1, disp = ex_dispatcher,
       log = probe_begin late_target @ DeleteTargetMetrics ''tcp://db:5432''\<rparr>\<rparr>"

lemma reset_reachable:
  "system_reachable ip6 ex_GetName True True (start_system [] 1 1 ex_dispatcher) reset_system"
proof -
  let ?R = "system_reachable ip6 ex_GetName True True (start_system [] 1 1 ex_dispatcher)"
  let ?sh = "\<lambda>l. \<lparr>jobs = make_chan 1, disp = ex_dispatcher, log = probe_begin late_target @ l\<rparr>"
  let ?S = "\<lambda>r out. collected_system\<lparr>sys_workers := [Acquiring late_target], sys_shared := ?sh [],
      sys_reg := r, sys_outboxes := out\<rparr>"
  let ?r = "back_registry\<lparr>Events := (make_chan 1000)\<lparr>buf := [added late_target]\<rparr>\<rparr>"
  note step = system_reachable.sr_step
  have none: "back_registry\<lparr>Events := make_chan 1000\<rparr> = back_registry"
    by (rule Registry.equality) (simp_all add: back_callback(2))
  have 1: "?R (collected_system\<lparr>sys_workers := [Acquiring late_target], sys_shared := ?sh []\<rparr>)"
    using step [OF collected_reachable y_worker [of _ 0 ip6 "Acquiring late_target"]] ex_take [of ip6 "[]"]
    by (simp add: collected_system_def)
  have 2: "?R (?S back_registry [[], [], [added late_target]])"
    using step [OF 1 y_callback [of _ True "CRDAdded (Object (ex_crd ''db:5432''))" ex_GetName
        back_registry "[added late_target]"]] back_callback(1) by (simp add: collected_system_def)
  have "Delivered ((make_chan 1000)\<lparr>buf := [added late_target]\<rparr>)
      \<in> set (emitEvent False False (added late_target) (Events back_registry))"
    by (simp add: back_callback(2) emitEvent_def send_case_def channel_defs)
  then have 3: "?R (?S ?r [[], [], []])"
    using step [OF 2 y_emit [of _ 2 "added late_target" "[]" _ False]]
    by (force simp: after_emit_def collected_system_def)
  have "chan_recv (Events ?r) = Received (added late_target) (make_chan 1000)"
    by (simp add: channel_defs)
  then have 4: "?R (?S back_registry [[], [], []]\<lparr>sys_loop := back_loop, sys_ctls := [Waiting, Fresh]\<rparr>)"
    using step [OF 3 y_event [of _ "added late_target" "make_chan 1000"]] none back_loop_fields(1)
    by (simp add: loop_receive_def Let_def collected_system_def flip: back_loop_def)
  from step [OF 4 y_delete [of _ 0 "''tcp://db:5432''" "[]"]] show ?thesis
    by (simp add: reset_system_def collected_system_def)
qed

subsection \<open>Properties\<close>

text \<open>
  C18. The series of a removed target can come back for good: the target is unknown to the
  registry, its scheduler is cancelled, every event is handled, the scrape after the removal
  has deleted its series, and no deletion is pending any more; then a worker takes the job that
  was still queued, and the traffic series of the target is live.
\<close>

theorem purged_series_return:
  "\<exists>s. system_reachable ip6 ex_GetName True True (start_system [] 1 1 ex_dispatcher) s \<and>
     targets (sys_reg s) ''tcp://db:5432'' = None \<and> ticking s = {} \<and> backlog s = [] \<and>
     pendingDeletes (cleaner (sys_loop s)) = Map.empty \<and> set (sys_requests s) \<subseteq> {Purging []} \<and>
     (\<exists>earlier later. log (sys_shared s) = earlier @ later \<and> live {} earlier = {} \<and>
        (TrafficCounter, [''tcp://db:5432'']) \<in> live {} (log (sys_shared s)))"
proof -
  have "ticking stale_system = {}"
    by (simp add: ticking_def stale_system_def collected_system_def stopped_loop_fields)
  moreover have "live {} (DeleteTargetMetrics ''tcp://db:5432'') = {}"
    by (simp add: live_DeleteTargetMetrics)
  moreover have "(TrafficCounter, [''tcp://db:5432'']) \<in> live {} (log (sys_shared stale_system))"
    by (simp add: stale_system_def probe_begin_def) (simp add: late_target_def)
  ultimately show ?thesis
    using stale_reachable [of ip6] gone_callback(2,3)
    by (intro exI [of _ stale_system] conjI exI [of _ "DeleteTargetMetrics ''tcp://db:5432''"]
        exI [of _ "probe_begin late_target"])
      (simp_all add: stale_system_def collected_system_def backlog_def NewMetricsCleaner_def make_chan_def)
qed

text \<open>
  C19. A target that comes back can lose its series: the scrape handler collects the removed
  target and releases the lock; then the target is added again, and aborting its deletion finds
  nothing to abort; then the handler deletes. In the state reached the target is known, its new
  scheduler ticks and a worker is probing it, and the traffic it has already counted is gone.
\<close>

theorem readded_target_loses_series:
  "\<exists>s. system_reachable ip6 ex_GetName True True (start_system [] 1 1 ex_dispatcher) s \<and>
     sys_phase s = Serving \<and> \<not> sys_crashed s \<and> backlog s = [] \<and>
     targets (sys_reg s) ''tcp://db:5432'' \<noteq> None \<and> ticking s = {''tcp://db:5432''} \<and>
     sys_workers s = [Acquiring late_target] \<and> pendingDeletes (cleaner (sys_loop s)) = Map.empty \<and>
     (\<exists>l. log (sys_shared s) = l @ DeleteTargetMetrics ''tcp://db:5432'' \<and>
        (TrafficCounter, [''tcp://db:5432'']) \<in> live {} l \<and>
        \<not> target_live (live {} (log (sys_shared s))) ''tcp://db:5432'')"
proof -
  have a: "Address late_target = ''tcp://db:5432''" by (simp add: late_target_def)
  have "ticking reset_system = {''tcp://db:5432''}"
    by (auto simp: ticking_def reset_system_def collected_system_def back_loop_fields a less_Suc_eq
        intro!: exI [of _ "Suc 0"])
  moreover have "(TrafficCounter, [''tcp://db:5432'']) \<in> live {} (probe_begin late_target)"
    by (simp add: probe_begin_def a)
  moreover have "\<not> target_live (live S (DeleteTargetMetrics t)) t" for S t
    using metrics_purge.purge_target by (simp add: delete_live_def)
  ultimately show ?thesis
    using reset_reachable [of ip6] back_callback(2,3) back_loop_fields(2)
    by (intro exI [of _ reset_system] conjI exI [of _ "probe_begin late_target"])
      (simp_all add: reset_system_def collected_system_def backlog_def make_chan_def)
qed

end
