(* ===== verification/WatchFailure.thy ===== *)
theory WatchFailure
  imports Delivery
begin

section \<open>A watch that cannot be registered\<close>

text \<open>
  The error group cancels the context of all tasks and callbacks when one task returns an
  error, and main looks at that error only after the signal. Until then the program serves,
  but the callbacks that still run send their events under a context that is done.
\<close>

definition stopped_error :: go_error where
  "stopped_error = GoError (OtherError ''handler was not added: the informer has stopped'') []"

definition failed_tasks :: "task_name \<Rightarrow> task" where
  "failed_tasks = (\<lambda>_. Starting)(Statics := Syncing,
     Slices := Returned (task_result Slices (Some stopped_error) False))"

lemma failed_tasks_simps [simp]:
  "failed_tasks Peers = Starting" "failed_tasks Statics = Syncing"
  "failed (failed_tasks Slices)" "group_done b failed_tasks"
proof -
  obtain e where "task_result Slices (Some stopped_error) False = Some e"
    using task_result_error [of Slices stopped_error] by (auto simp: stopped_error_def)
  then show "failed (failed_tasks Slices)" by (simp add: failed_tasks_def)
  then show "group_done b failed_tasks" by (simp add: group_done_def)
qed (simp_all add: failed_tasks_def)

definition silenced_system :: "nat \<Rightarrow> nat \<Rightarrow> 'ctx Dispatcher \<Rightarrow> 'ctx system" where
  "silenced_system n q d = (start_system [] n q d)\<lparr>sys_tasks := failed_tasks,
     sys_reg := late_registry, sys_outboxes := [[]]\<rparr>"

lemma silenced_reachable:
  "system_reachable ip6 ex_GetName True True (start_system [] n q d) (silenced_system n q d)"
proof -
  let ?s = "start_system [] n q d"
  let ?R = "system_reachable ip6 ex_GetName True True ?s"
  note step = prog.reach_step
  have s: "\<not> sys_crashed ?s" "sys_tasks ?s = (\<lambda>_. Starting)" "sys_outboxes ?s = []"
    "sys_reg ?s = NewRegistry []"
    by (simp_all add: start_system_def)
  have 1: "?R (?s\<lparr>sys_tasks := (\<lambda>_. Starting)(Statics := Syncing)\<rparr>)"
    using step [OF prog.reach_refl y_task [of ?s Statics Syncing]] s by (simp add: t_register)
  let ?fail = "Returned (task_result Slices (Some stopped_error) False)"
  have 2: "?R (?s\<lparr>sys_tasks := failed_tasks\<rparr>)"
    using step [OF 1 y_task [of _ Slices ?fail]] s
    by (simp add: failed_tasks_def t_fail del: task_result.simps)
  have 3: "?R (?s\<lparr>sys_tasks := failed_tasks, sys_reg := late_registry, sys_outboxes := [[added late_target]]\<rparr>)"
    using step [OF 2 y_callback [of _ True "CRDAdded (Object (ex_crd ''db:5432''))" ex_GetName
        late_registry "[added late_target]"]] late_callback(1) s by simp
  have "GaveUpCtx \<in> set (emitEvent True False (added late_target) ch)" for ch
    by (simp add: emitEvent_def)
  then show ?thesis
    using step [OF 3 y_emit [of _ 0 "added late_target" "[]" GaveUpCtx False]] s
    by (simp add: after_emit_def silenced_system_def)
qed

subsection \<open>Properties\<close>


end
