(* ===== verification/WorkerRuns.thy ===== *)
theory WorkerRuns
  imports Worker
begin

section \<open>A worker that runs alone executes ProbeTarget\<close>

text \<open>
  \<open>ProbeTarget\<close> is the function of the source as one value, \<open>worker_step\<close> its splitting
  where other goroutines can run. When nothing runs in between, the two agree: the runs of a
  worker from one \<open>select\<close> to the next that take a job are the results of the function.
\<close>

inductive_cases worker_IdleE: "worker_step ip6 b (Idle, s) (w, s')"
inductive_cases worker_AcquiringE: "worker_step ip6 b (Acquiring t, s) (w, s')"
inductive_cases worker_ProbingE: "worker_step ip6 b (Probing t token, s) (w, s')"
inductive_cases worker_ExitedE: "worker_step ip6 b (Exited, s) (w, s')"

text \<open>One job: two steps when the token does not come in time, three otherwise.\<close>

definition one_job ::
  "(string \<Rightarrow> bool) \<Rightarrow> bool \<Rightarrow> 'ctx shared \<Rightarrow> 'ctx shared \<Rightarrow> bool" where
  "one_job ip6 ctx_done s s' \<longleftrightarrow>
     (worker_step ip6 ctx_done ^^ 2) (Idle, s) (Idle, s') \<or>
     (worker_step ip6 ctx_done ^^ 3) (Idle, s) (Idle, s')"

lemma worker_next:
  "worker_step ip6 b (Idle, s) (w, s') \<Longrightarrow> w = Exited \<or> (\<exists>t. w = Acquiring t)"
  "worker_step ip6 b (Acquiring t, s) (w, s') \<Longrightarrow> w = Idle \<or> (\<exists>token. w = Probing t token)"
  "\<not> worker_step ip6 b (Exited, s) (w, s')"
  by (auto elim: worker_IdleE worker_AcquiringE worker_ExitedE)

lemma relpow_2: "(W ^^ 2) x z \<longleftrightarrow> (\<exists>y. W x y \<and> W y z)"
  by (auto simp: numeral_2_eq_2)

lemma relpow_3: "(W ^^ 3) x z \<longleftrightarrow> (\<exists>y. W x y \<and> (\<exists>y'. W y y' \<and> W y' z))"
  by (auto simp: numeral_3_eq_3)

lemma one_job_iff:
  "one_job ip6 b s s' \<longleftrightarrow>
    (\<exists>t s1. worker_step ip6 b (Idle, s) (Acquiring t, s1) \<and>
      (worker_step ip6 b (Acquiring t, s1) (Idle, s') \<or>
       (\<exists>token s2. worker_step ip6 b (Acquiring t, s1) (Probing t token, s2) \<and>
          worker_step ip6 b (Probing t token, s2) (Idle, s'))))"
proof -
  let ?W = "worker_step ip6 b"
  have from_idle: "(\<exists>y. ?W (Idle, s) y \<and> P y) \<longleftrightarrow> (\<exists>t s1. ?W (Idle, s) (Acquiring t, s1) \<and> P (Acquiring t, s1))"
    if "\<And>s1. \<not> P (Exited, s1)" for P
    using that worker_next(1) by fast
  have from_acquiring: "(\<exists>y. ?W (Acquiring t, s1) y \<and> ?W y (Idle, s')) \<longleftrightarrow>
      (\<exists>s2. ?W (Acquiring t, s1) (Idle, s2) \<and> ?W (Idle, s2) (Idle, s')) \<or>
      (\<exists>token s2. ?W (Acquiring t, s1) (Probing t token, s2) \<and> ?W (Probing t token, s2) (Idle, s'))"
    for t s1
    using worker_next(2) by fast
  have idle: "\<not> ?W (Idle, s2) (Idle, s')" for s2
    using worker_next(1) by fastforce
  show ?thesis
    unfolding one_job_def relpow_2 relpow_3
    by (subst (1 2) from_idle) (auto simp: worker_next(3) from_acquiring idle simp del: split_paired_Ex)
qed

text \<open>What can follow the taking of a job, with nothing in between.\<close>

lemma after_acquire:
  "worker_step ip6 b (Acquiring t, s1) (Idle, s') \<longleftrightarrow>
    (\<exists>pd v. AcquireCtxDone \<in> set (acquire pd (disp s1)) \<and> 0 \<le> v \<and>
      s' = s1\<lparr>log := log s1 @ probe_end t v CategoryTimeout\<rparr>)"
  by (auto elim: worker_AcquiringE intro: w_timeout)

lemma after_probe:
  "(\<exists>token s2. worker_step ip6 b (Acquiring t, s1) (Probing t token, s2) \<and>
      worker_step ip6 b (Probing t token, s2) (Idle, s')) \<longleftrightarrow>
    (\<exists>ctx v cat calls. 0 \<le> v \<and> dispatch ip6 (disp s1) ctx t = (cat, calls) \<and>
      (\<exists>d'. s' = s1\<lparr>disp := d', log := log s1 @ calls @ probe_end t v cat\<rparr> \<and>
        ((\<exists>d1 pd. Token d1 \<in> set (acquire pd (disp s1)) \<and> release d1 = Some d') \<or>
         sem (disp s1) = None \<and> d' = disp s1)))"
  (is "?l \<longleftrightarrow> ?r")
proof
  assume ?l
  then obtain token s2 where st: "worker_step ip6 b (Acquiring t, s1) (Probing t token, s2)"
    "worker_step ip6 b (Probing t token, s2) (Idle, s')" by blast
  from st(1) have s2: "token \<and> (\<exists>d1 pd. Token d1 \<in> set (acquire pd (disp s1)) \<and> s2 = s1\<lparr>disp := d1\<rparr>) \<or>
      \<not> token \<and> sem (disp s1) = None \<and> s2 = s1"
    by cases (auto simp: acquire_other)
  then have disp: "dispatch ip6 (disp s2) ctx t = dispatch ip6 (disp s1) ctx t" for ctx
    by (auto simp: acquire_Token intro: dispatch_probers)
  from st(2) s2 show ?r by cases (force simp: disp)
next
  assume ?r
  then obtain ctx v cat calls d' where v: "0 \<le> v" and c: "dispatch ip6 (disp s1) ctx t = (cat, calls)"
    and s': "s' = s1\<lparr>disp := d', log := log s1 @ calls @ probe_end t v cat\<rparr>"
    and tok: "(\<exists>d1 pd. Token d1 \<in> set (acquire pd (disp s1)) \<and> release d1 = Some d') \<or>
      sem (disp s1) = None \<and> d' = disp s1"
    by blast
  from tok show ?l
  proof
    assume "\<exists>d1 pd. Token d1 \<in> set (acquire pd (disp s1)) \<and> release d1 = Some d'"
    then obtain d1 pd where d1: "Token d1 \<in> set (acquire pd (disp s1))" "release d1 = Some d'" by blast
    let ?s = "s1\<lparr>disp := d1\<rparr>"
    have "dispatch ip6 (disp ?s) ctx t = (cat, calls)"
      using c d1(1) dispatch_probers [of d1 "disp s1"] by (auto simp: acquire_Token)
    then have "worker_step ip6 b (Probing t True, ?s)
        (Idle, ?s\<lparr>disp := d', log := log ?s @ calls @ probe_end t v cat\<rparr>)"
      by (rule w_done [OF _ v]) (simp add: d1)
    with w_token [OF d1(1)] s' show ?l by fastforce
  next
    assume "sem (disp s1) = None \<and> d' = disp s1"
    moreover from this have "NoSemaphore \<in> set (acquire True (disp s1))" by (simp add: acquire_other)
    ultimately show ?l
      using w_no_sem w_done [OF c v, of False "disp s1"] s' by fastforce
  qed
qed

lemma in_ProbeTarget:
  "(d', calls) \<in> set (ProbeTarget ip6 pd ctx v t d) \<longleftrightarrow>
    (\<exists>cat cs. (d', cat, cs) \<in> set (Execute ip6 pd ctx t d) \<and>
      calls = probe_begin t @ cs @ probe_end t v cat)"
  by (force simp: ProbeTarget_def)

lemma in_Execute:
  "(d', cat, cs) \<in> set (Execute ip6 pd ctx t d) \<longleftrightarrow>
    AcquireCtxDone \<in> set (acquire pd d) \<and> d' = d \<and> cat = CategoryTimeout \<and> cs = [] \<or>
    dispatch ip6 d ctx t = (cat, cs) \<and>
      ((\<exists>d1. Token d1 \<in> set (acquire pd d) \<and> release d1 = Some d') \<or> sem d = None \<and> d' = d)"
  (is "?l \<longleftrightarrow> ?r")
proof
  have disp: "dispatch ip6 d1 ctx t = dispatch ip6 d ctx t" if "Token d1 \<in> set (acquire pd d)" for d1
    using that by (auto simp: acquire_Token intro: dispatch_probers)
  show ?r if ?l
    using that disp acquire_other [of pd d] by (cases rule: Execute_cases) auto
  assume ?r
  then consider "AcquireCtxDone \<in> set (acquire pd d)" "d' = d" "cat = CategoryTimeout" "cs = []"
    | d1 where "Token d1 \<in> set (acquire pd d)" "release d1 = Some d'" "dispatch ip6 d ctx t = (cat, cs)"
    | "NoSemaphore \<in> set (acquire pd d)" "d' = d" "dispatch ip6 d ctx t = (cat, cs)"
    using acquire_other(1) [of pd d] by blast
  then show ?l
  proof cases
    case 1
    then show ?thesis by (force simp: Execute_def)
  next
    case 2
    then show ?thesis using disp [OF 2(1)] by (force simp: Execute_def)
  next
    case 3
    then show ?thesis by (force simp: Execute_def)
  qed
qed

text \<open>From the moment the worker has the job to its return: what \<open>ProbeTarget\<close> does.\<close>

lemma after_take:
  "worker_step ip6 b (Acquiring t, s1) (Idle, s') \<or>
    (\<exists>token s2. worker_step ip6 b (Acquiring t, s1) (Probing t token, s2) \<and>
      worker_step ip6 b (Probing t token, s2) (Idle, s')) \<longleftrightarrow>
    (\<exists>pd ctx v d' cat cs. 0 \<le> v \<and> (d', cat, cs) \<in> set (Execute ip6 pd ctx t (disp s1)) \<and>
      s' = s1\<lparr>disp := d', log := log s1 @ cs @ probe_end t v cat\<rparr>)"
  (is "?l \<longleftrightarrow> ?r")
proof
  assume ?l
  then show ?r
  proof
    assume "worker_step ip6 b (Acquiring t, s1) (Idle, s')"
    then obtain pd v where "AcquireCtxDone \<in> set (acquire pd (disp s1))" "0 \<le> v"
      "s' = s1\<lparr>log := log s1 @ probe_end t v CategoryTimeout\<rparr>"
      unfolding after_acquire by blast
    then have "0 \<le> v \<and> (disp s1, CategoryTimeout, []) \<in> set (Execute ip6 pd undefined t (disp s1)) \<and>
        s' = s1\<lparr>disp := disp s1, log := log s1 @ [] @ probe_end t v CategoryTimeout\<rparr>"
      by (simp add: in_Execute)
    then show ?r by blast
  next
    assume "\<exists>token s2. worker_step ip6 b (Acquiring t, s1) (Probing t token, s2) \<and>
      worker_step ip6 b (Probing t token, s2) (Idle, s')"
    then obtain ctx v cat cs d' where c: "0 \<le> v" "dispatch ip6 (disp s1) ctx t = (cat, cs)"
      "s' = s1\<lparr>disp := d', log := log s1 @ cs @ probe_end t v cat\<rparr>"
      and tok: "(\<exists>d1 pd. Token d1 \<in> set (acquire pd (disp s1)) \<and> release d1 = Some d') \<or>
        sem (disp s1) = None \<and> d' = disp s1"
      unfolding after_probe by blast
    from tok obtain pd where "(d', cat, cs) \<in> set (Execute ip6 pd ctx t (disp s1))"
      unfolding in_Execute using c(2) by blast
    with c(1,3) show ?r by blast
  qed
next
  assume ?r
  then obtain pd ctx v d' cat cs where v: "0 \<le> v"
    and e: "(d', cat, cs) \<in> set (Execute ip6 pd ctx t (disp s1))"
    and s': "s' = s1\<lparr>disp := d', log := log s1 @ cs @ probe_end t v cat\<rparr>" by blast
  from e consider "AcquireCtxDone \<in> set (acquire pd (disp s1))" "d' = disp s1" "cat = CategoryTimeout" "cs = []"
    | "dispatch ip6 (disp s1) ctx t = (cat, cs)"
      "(\<exists>d1 pd. Token d1 \<in> set (acquire pd (disp s1)) \<and> release d1 = Some d') \<or>
       sem (disp s1) = None \<and> d' = disp s1"
    unfolding in_Execute by blast
  then show ?l
  proof cases
    case 1
    then have "worker_step ip6 b (Acquiring t, s1) (Idle, s')"
      unfolding after_acquire using v s' by auto
    then show ?thesis ..
  next
    case 2
    then show ?thesis unfolding after_probe using v s' by blast
  qed
qed

subsection \<open>Properties\<close>


end
