(* ===== verification/Spec2Isabelle.thy ===== *)
theory Spec2Isabelle
  imports Typing FinalMetrics Convergence StaleSeries WatchFailure WorkerRuns
begin

text \<open>
  A verification development for kube-prober: the Go program that discovers targets in a
  Kubernetes cluster, divides them among its replicas, probes them, and exports metrics.

  \<^bold>\<open>The program and its parts.\<close> Informers of client-go call back with EndpointSlices and
  StaticTarget resources. The callbacks change the registry (pkg/prober/registry.go), which keeps
  the known targets, asks the rendezvous sharding whether this replica owns them, and sends an
  event for every target that starts or stops being probed. The event loop of main turns events
  into scheduler goroutines and, at a removal, marks the metrics of the target for deletion. A
  scheduler puts a job into a bounded queue on every tick; the workers take jobs and run them
  through the dispatcher, which bounds the probes in flight and selects the prober of the
  protocol. The outcome becomes an error category and a set of metric calls. The telemetry
  server serves the metrics, and every scrape purges removed targets. On SIGTERM main stops the
  goroutines in a fixed order.

  \<^bold>\<open>The theories\<close>, from the bottom:
  \<^item> Prelude, Machines, Channels, Types: what every step relation shares (locales \<open>machine\<close> and
    \<open>simulation\<close>, interpreted by the pool and by the program); Go maps, strings and decimal printing; buffered channels as
    FIFO values whose operations return what a goroutine would see (sent, blocks, panics); targets
    and events, with \<open>replay\<close>, the meaning of a sequence of events, and the locale
    \<open>event_source\<close>, the contract of whatever emits events.
  \<^item> Sharding (sharding.go): the hash loops on 64-bit words and the selection of the owner, with
    FNV-1a and "first peer of maximal weight" as their references. Locale \<open>ownership\<close>.
  \<^item> Registry (registry.go): each operation is its critical section, a function that returns the
    new registry and the events it collected; \<open>emitEvent\<close> is the list of the outcomes of its
    \<open>select\<close>. The order in which \<open>range\<close> visits a map is an argument.
  \<^item> Errors, Metrics, Cleaner (prober.go, metrics.go, metrics_cleaner.go): the error tree with
    \<open>errors.Is\<close> and \<open>errors.As\<close>, the categories; metrics as a log of calls, which \<open>live\<close> reads;
    the countdown of removed targets. Locale \<open>purge\<close>: what the cleaner asks of its callback.
  \<^item> Config (env.go, main.go): integers of the environment, with wrap-around at 64 bits.
  \<^item> Objects, StaticTargets, Informer, Watchers (informer.go, statictargets.go): the values
    client-go hands over (with tombstones and foreign values), the callbacks, peer discovery, and
    the tasks of the error group as control states, with what they return to it.
  \<^item> EventLoop (main.go): schedulers as a list, cancel functions as positions in it. Locales
    \<open>event_consumer\<close> and \<open>event_pipeline\<close>, the composition of a source with a consumer.
  \<^item> Url, Probers, Dispatcher (http.go, tcp.go, dns.go, grpc.go, tls.go, dispatcher.go):
    \<open>url.Parse\<close> and \<open>net.SplitHostPort\<close>, the five probers over the record \<open>network\<close> of what the
    network answers, and \<open>Execute\<close> with its semaphore. Locale \<open>prober\<close>, interpreted by each
    prober and, through its registered functions, by the dispatcher.
  \<^item> Worker (worker.go): workers and schedulers as control states with step relations, and their
    pool over one queue, one dispatcher and one log. WorkerRuns: the steps of a worker that runs
    alone are the function \<open>ProbeTarget\<close>.
  \<^item> System (main.go, server.go): all goroutines as one step relation, the tasks of the error
    group and the telemetry server included, with the phases of main's shutdown. PoolRefinement:
    the program simulates the pool. Delivery: what the order of events guarantees.
    Convergence: a backlog of events can always be worked off. WatchFailure: what a failed task of the group does to it. Shutdown: the program can always be brought to its
    end. StaleSeries: deletions that come too early or too late.
  \<^item> Paths, Kube, Server (client.go, server.go): path normalisation, the cluster configuration,
    and the HTTP routes. Startup: from the environment to the initial state of System.
    Typing: which series the program can create. FinalMetrics: nothing is counted any more when
    the server shuts down.
  \<^item> This theory: discovery end to end, and properties of several components.

  \<^bold>\<open>How state corresponds.\<close> Structs are records with the source's fields; a Go map is a
  partial function; a lock is not represented, since what runs under it is one function. A
  goroutine is a control state, and a step is an operation another goroutine can observe. Errors
  and panics are values (\<open>Inl\<close>, \<open>None\<close>, \<open>EmitPanic\<close>, \<open>Panicked\<close>); a panic of any goroutine sets
  \<open>sys_crashed\<close>, after which nothing runs. Waiting for a WaitGroup is reading the control states.

  \<^bold>\<open>What the lemmas show.\<close> The invariant \<open>registry_inv\<close> (a target is active exactly when this
  replica owns it) holds in every reachable registry, and the events replay to the active
  targets; the loop invariant \<open>loop_inv\<close> makes schedulers and cancel functions correspond one to
  one; composed, the live schedulers are the owned targets, also while all goroutines interleave,
  as long as callbacks do not overlap and no send is given up; and from every such
  state the delivery can be completed. The operations of the registry, the
  probers, the dispatcher, the cleaner, the routes and the parsers have functional
  specifications on every branch. The pool's invariant gives the bounds and the agreement of the
  golden signals in every state of the program, and that every series belongs to a target a
  scheduler was started for. The phases of the shutdown give the closing order
  of the channels; a measure gives that the workers drain the queue; and no state after the signal
  is a deadlock. Several theorems state where the program falls short of its documentation: events
  out of order, additions given up, addresses shared by slices, updated StaticTargets, IPv6
  endpoints, certificate errors, series deleted too early or too late, a failed watch that silences
  the others, and a late scheduler that sends on the closed queue.

  \<^bold>\<open>Bounds and fuel.\<close> No definition uses fuel: the loops are structural or have a measure (the
  digits of a number, the virtual nodes left). Capacities and limits are those of the source; the
  buffer of ten digits in the hash is shown to be enough for every index below ten to the ten (the
  code's indices are below \<open>vnodesPerPeer\<close>), and to overrun beyond.

  \<^bold>\<open>Parameters.\<close> What is not in the repository is an argument: the network, \<open>status.FromError\<close>,
  the IPv6 test of \<open>netip\<close>, the Service lister and the stores of client-go, \<open>GetName\<close>, the
  certificate pools, the answers of the cluster libraries (record \<open>platform\<close>). The only facts
  assumed of them are hypotheses of the theorems that name them. The standard library functions
  the program relies on (\<open>strconv.Atoi\<close>, \<open>url.Parse\<close>, \<open>filepath.Join\<close>, \<open>http.ServeMux\<close>, the
  errors package) are modelled for the inputs the program gives them.

  \<^bold>\<open>Not modelled.\<close> Logging; time, except as nondeterminism (a tick, a timer or a deadline may
  happen at any moment) and as the values the metrics receive, which are reals rather than
  floats; memory limits (a queue too large to allocate); the inside of client-go, of net/http
  (connections, the profiling pages) and of the Prometheus client; the
  WaitGroup's own misuse checks. The
  manifests, the Helm chart and the scripts are outside the Go program.
\<close>

section \<open>From the cluster to the running schedulers\<close>

text \<open>
  The callbacks of the informers produce events, the event loop of \<open>main\<close> consumes them;
  both keep their side of the contract, so the pipeline keeps it.
\<close>

interpretation discovery: event_pipeline "informer_step G" valid_informer registry_inv active_set
    handle_event loop_inv probing
  by unfold_locales

lemma active_set_owned:
  "reachable self r \<Longrightarrow>
    active_set r = {a. targets r a \<noteq> None \<and> evalShardingOwner a self (clusterPodIPs r) = Some True}"
  using reachable_self [of self r] reachable_inv [of self r]
  by (simp add: active_set_def active_iff shouldProcessTargetLocked_def)

text \<open>
  C1. End to end: after any sequence of informer callbacks on a new registry, once the
  event loop has handled the emitted events in order, the addresses with a live scheduler
  are exactly the known targets this replica owns under the current peers.
\<close>

theorem live_schedulers_are_owned:
  assumes "valid_ops (informer_step GetName) valid_informer (NewRegistry self) callbacks"
  shows "let (r, events) = run_ops (informer_step GetName) (NewRegistry self) callbacks
    in probing (fold handle_event events new_Loop) =
      {a. targets r a \<noteq> None \<and> evalShardingOwner a self (clusterPodIPs r) = Some True}"
proof -
  have "reachable self (fst (run_ops (informer_step GetName) (NewRegistry self) callbacks))"
    using assms by (intro reachable_informer_run reachable.created)
  moreover have "probing new_Loop = active_set (NewRegistry self)"
    by (simp add: probing_def new_Loop_def)
  ultimately show ?thesis
    using discovery.pipeline_agrees [OF registry_inv_New assms loop_inv_new]
    by (simp add: active_set_owned case_prod_beta)
qed

definition ex_callbacks :: "informer_event list" where
  "ex_callbacks =
     [CRDAdded (Object (ex_crd ''db:5432'')), CRDAdded Foreign,
      SliceAdded ex_lister (Object (ex_labelled ''web'')),
      CRDUpdated (Object (ex_crd ''db:5432'')) (Object (ex_crd ''tcp://db2:5432'')),
      SliceDeleted (DeletedFinalStateUnknown (Object (ex_labelled ''web'')))]"

lemma ex_discovered:
  "getProbeSchemeAndPath (ex_labelled ''web'') ex_lister = (''tcp'', [])"
  "newTargetList (ex_labelled ''web'') ''tcp'' [] = [''tcp://10.1.0.1:8080'']"
  by (simp_all add: getProbeSchemeAndPath_def ex_lister_def get_string_def newTargetList_def
      target_address_def itoa_eval)

lemma ex_callbacks_state:
  "(targets (fst (run_ops (informer_step ex_GetName) (NewRegistry []) ex_callbacks)) a \<noteq> None) =
    (a \<in> {''tcp://db:5432'', ''tcp://db2:5432''})"
  by (simp add: ex_callbacks_def case_prod_beta Let_def static_handler_ops static_add_op_def parse_ex_crd
      slice_AddFunc_def slice_DeleteFunc_def ex_discovered Add_state RemoveEndpointSlice_state
      UpdateFromEndpointSlice_state NewRegistry_def is_static_def slice_gone_def)

theorem live_schedulers_are_owned_witness:
  "probing (fold handle_event (snd (run_ops (informer_step ex_GetName) (NewRegistry []) ex_callbacks)) new_Loop)
    = {''tcp://db:5432'', ''tcp://db2:5432''}"
proof -
  have "valid_ops (informer_step ex_GetName) valid_informer (NewRegistry []) ex_callbacks"
    by (simp add: ex_callbacks_def)
  moreover have "evalShardingOwner a [] peers = Some True" for a peers
    by (simp add: evalShardingOwner_def)
  ultimately show ?thesis
    using live_schedulers_are_owned [of ex_GetName "[]" ex_callbacks] ex_callbacks_state
    by (auto simp add: case_prod_beta simp del: run_ops.simps)
qed

text \<open>
  A StaticTarget that takes over an address already probed as a dynamic target is
  announced, but the event loop keeps the running scheduler: what is probed (scheme, TLS
  verification) stays the dynamic target's until the address is removed and added again.
\<close>

lemma static_takeover_not_applied:
  assumes "reachable self r" "targets r (Address t) = Some d" "\<not> Static d"
    and "get_bool (active r) (Address t)" "activeSchedulers st (Address t) = Some i"
  shows "let (r', events) = Add t r; st' = fold handle_event events st
    in targets r' (Address t) = Some (t\<lparr>Static := True\<rparr>) \<and> events = [added (t\<lparr>Static := True\<rparr>)] \<and>
       schedulers st' = schedulers st \<and> activeSchedulers st' = activeSchedulers st"
proof -
  have "shouldProcessTargetLocked r (Address t)"
    using assms(1,4) by (auto simp: active_iff dest: reachable_inv)
  then show ?thesis
    using assms(2,3,5) by (simp add: Add_def Let_def handle_event_def)
qed

definition ex_taken :: Target where
  "ex_taken = zero_Target\<lparr>Address := ''tcp://10.1.0.1:8080'', Scheme := ''tcp'', InsecureSkipVerify := True\<rparr>"

definition ex_dynamic :: Registry where
  "ex_dynamic = fst (UpdateFromEndpointSlice (ex_labelled ''web'') ''tcp'' [] (NewRegistry []))"

lemma ex_dynamic_state:
  "reachable [] ex_dynamic"
  "targets ex_dynamic = [''tcp://10.1.0.1:8080'' \<mapsto> full_target ''ns/web'' ''tcp'' ''tcp://10.1.0.1:8080'']"
  "get_bool (active ex_dynamic) ''tcp://10.1.0.1:8080''"
proof -
  show r: "reachable [] ex_dynamic"
    using reachable.operation [OF reachable.created, of "[]" "OpUpdateSlice (ex_labelled ''web'') ''tcp'' []"]
    by (simp add: ex_dynamic_def)
  show t: "targets ex_dynamic = [''tcp://10.1.0.1:8080'' \<mapsto> full_target ''ns/web'' ''tcp'' ''tcp://10.1.0.1:8080'']"
    by (auto simp: ex_dynamic_def UpdateFromEndpointSlice_state Let_def ex_discovered NewRegistry_def fun_eq_iff)
  show "get_bool (active ex_dynamic) ''tcp://10.1.0.1:8080''"
    using reachable_inv [OF r] reachable_self [OF r]
    by (simp add: active_iff t shouldProcessTargetLocked_def evalShardingOwner_def)
qed

lemma static_takeover_not_applied_witness:
  "schedulers (fold handle_event (snd (Add ex_taken ex_dynamic)) (handle_event (added (full_target ''ns/web'' ''tcp'' ''tcp://10.1.0.1:8080'')) new_Loop))
   = [\<lparr>sched_target = full_target ''ns/web'' ''tcp'' ''tcp://10.1.0.1:8080'', cancelled = False\<rparr>]"
proof -
  have "Address ex_taken = ''tcp://10.1.0.1:8080''"
    by (simp add: ex_taken_def)
  then show ?thesis
    using static_takeover_not_applied [OF ex_dynamic_state(1), of ex_taken
        "full_target ''ns/web'' ''tcp'' ''tcp://10.1.0.1:8080''"
        "handle_event (added (full_target ''ns/web'' ''tcp'' ''tcp://10.1.0.1:8080'')) new_Loop" 0]
    by (simp add: ex_dynamic_state case_prod_beta Let_def)
      (simp add: handle_event_def spawn_def new_Loop_def Let_def)
qed

text \<open>What the slice loops do to an address that stays served.\<close>

definition stays :: "address \<Rightarrow> Registry \<times> TargetEvent list \<Rightarrow> bool" where
  "stays a st \<longleftrightarrow> targets (fst st) a \<noteq> None \<and> (\<forall>e \<in> set (snd st). evt_address e \<noteq> a)"

lemma stays_steps:
  "get_bool m a \<Longrightarrow> stays a st \<Longrightarrow> stays a (cleanup_step m b st)"
  "stays a st \<Longrightarrow> stays a (register_step k s b st)"
  by (auto simp: stays_def cleanup_step_def register_step_def Let_def split: prod.splits option.splits)

lemma stays_UpdateSlice:
  assumes "targets r a \<noteq> None" "a \<in> set (newTargetList sl scheme path)"
  shows "stays a (UpdateFromEndpointSlice sl scheme path r)"
proof -
  let ?new = "newTargetList sl scheme path"
  have "stays a (fold (cleanup_step (newTargetMap ?new)) olds (r, []))" for olds
  proof (rule fold_loop_invariant)
    show "stays a (r, [])" using assms(1) by (simp add: stays_def)
    show "stays a (cleanup_step (newTargetMap ?new) b st)" if "stays a st" for b st
      using assms(2) that by (simp add: stays_steps(1))
  qed
  then have "stays a (fold (register_step (sliceKey sl) scheme) ?new
      (fold (cleanup_step (newTargetMap ?new)) olds (r, [])))" for olds
    by (rule fold_loop_invariant) (rule stays_steps)
  then show ?thesis
    by (simp add: UpdateFromEndpointSlice_def Let_def case_prod_beta stays_def)
qed



end
